theory Spec2Isabelle
  imports Complex_Main "HOL-Library.Sublist"
begin

section \<open>JavaScript numbers\<close>

text \<open>
  A JavaScript number is an IEEE-754 binary64 value: a finite double, an infinity or NaN.
  \<open>Num r\<close> stands for the double of value \<open>r\<close> (the two zeros are not told apart).
  \<open>roundDouble\<close> rounds a real to the nearest double, ties to even: the binary exponent
  \<open>e\<close> of \<open>x\<close> (at least -1022, where the subnormal doubles begin) gives the spacing
  \<open>2 ^ (e - 52)\<close> of the doubles around \<open>x\<close>, and a result of magnitude \<open>2 ^ 1024\<close>
  or more is an infinity.
\<close>

datatype number = Num real | PosInfinity | NegInfinity | NaN

definition roundTiesToEven :: "real \<Rightarrow> int" where
  "roundTiesToEven y =
     (let f = \<lfloor>y\<rfloor>
      in if y - of_int f < 1 / 2 then f
         else if y - of_int f > 1 / 2 then f + 1
         else if even f then f else f + 1)"

text \<open>
  \<open>exponentSearch k x\<close> is the integer \<open>e\<close> with \<open>2 ^ e \<le> x < 2 ^ (e + 1)\<close> when
  \<open>\<bar>e\<bar> \<le> k\<close> (lemma \<open>exponentSearch_bounds\<close>); 2200 steps reach beyond the range of
  the doubles on both sides.
\<close>

primrec exponentSearch :: "nat \<Rightarrow> real \<Rightarrow> int" where
  "exponentSearch 0 x = 0"
| "exponentSearch (Suc k) x =
     (if x \<ge> 2 then exponentSearch k (x / 2) + 1
      else if x < 1 then exponentSearch k (x * 2) - 1
      else 0)"

definition binaryExponent :: "real \<Rightarrow> int" where
  "binaryExponent x = max (exponentSearch 2200 \<bar>x\<bar>) (- 1022)"

definition roundDouble :: "real \<Rightarrow> number" where
  "roundDouble x =
     (if x = 0 then Num 0
      else (let e = binaryExponent x;
                q = 2 powi (e - 52);
                m = roundTiesToEven (\<bar>x\<bar> / q)
            in if e > 1023 \<or> (e = 1023 \<and> m \<ge> 2 ^ 53)
               then (if x < 0 then NegInfinity else PosInfinity)
               else Num (if x < 0 then - (of_int m * q) else of_int m * q)))"

text \<open>\<open>isDouble r\<close>: the real \<open>r\<close> is the value of a finite double.\<close>

definition isDouble :: "real \<Rightarrow> bool" where
  "isDouble r \<longleftrightarrow> roundDouble r = Num r"

text \<open>The operators \<open>+\<close>, \<open>*\<close>, \<open>/\<close> and \<open>>=\<close>, and \<open>Math.max\<close> and \<open>Math.min\<close>.\<close>

fun num_add :: "number \<Rightarrow> number \<Rightarrow> number" where
  "num_add (Num x) (Num y) = roundDouble (x + y)"
| "num_add NaN b = NaN"
| "num_add a NaN = NaN"
| "num_add PosInfinity NegInfinity = NaN"
| "num_add NegInfinity PosInfinity = NaN"
| "num_add PosInfinity b = PosInfinity"
| "num_add NegInfinity b = NegInfinity"
| "num_add a PosInfinity = PosInfinity"
| "num_add a NegInfinity = NegInfinity"

fun num_mul :: "number \<Rightarrow> number \<Rightarrow> number" where
  "num_mul (Num x) (Num y) = roundDouble (x * y)"
| "num_mul NaN b = NaN"
| "num_mul a NaN = NaN"
| "num_mul PosInfinity (Num y) =
     (if y > 0 then PosInfinity else if y < 0 then NegInfinity else NaN)"
| "num_mul NegInfinity (Num y) =
     (if y > 0 then NegInfinity else if y < 0 then PosInfinity else NaN)"
| "num_mul (Num x) PosInfinity =
     (if x > 0 then PosInfinity else if x < 0 then NegInfinity else NaN)"
| "num_mul (Num x) NegInfinity =
     (if x > 0 then NegInfinity else if x < 0 then PosInfinity else NaN)"
| "num_mul PosInfinity PosInfinity = PosInfinity"
| "num_mul NegInfinity NegInfinity = PosInfinity"
| "num_mul PosInfinity NegInfinity = NegInfinity"
| "num_mul NegInfinity PosInfinity = NegInfinity"

fun num_div :: "number \<Rightarrow> number \<Rightarrow> number" where
  "num_div (Num x) (Num y) =
     (if y = 0 then (if x > 0 then PosInfinity else if x < 0 then NegInfinity else NaN)
      else roundDouble (x / y))"
| "num_div NaN b = NaN"
| "num_div a NaN = NaN"
| "num_div (Num x) PosInfinity = Num 0"
| "num_div (Num x) NegInfinity = Num 0"
| "num_div PosInfinity (Num y) = (if y < 0 then NegInfinity else PosInfinity)"
| "num_div NegInfinity (Num y) = (if y < 0 then PosInfinity else NegInfinity)"
| "num_div a b = NaN"

fun num_ge :: "number \<Rightarrow> number \<Rightarrow> bool" where
  "num_ge (Num x) (Num y) = (x \<ge> y)"
| "num_ge NaN b = False"
| "num_ge a NaN = False"
| "num_ge PosInfinity b = True"
| "num_ge a NegInfinity = True"
| "num_ge NegInfinity b = False"
| "num_ge a PosInfinity = False"

fun Math_max :: "number \<Rightarrow> number \<Rightarrow> number" where
  "Math_max NaN b = NaN"
| "Math_max a NaN = NaN"
| "Math_max a b = (if num_ge a b then a else b)"

fun Math_min :: "number \<Rightarrow> number \<Rightarrow> number" where
  "Math_min NaN b = NaN"
| "Math_min a NaN = NaN"
| "Math_min a b = (if num_ge a b then b else a)"

section \<open>Data model (types.ts, constants.ts)\<close>

text \<open>
  The numbers that the engine accumulates tick by tick, or that the tick length reaches,
  are of type \<open>number\<close>: the clock \<open>timeSec\<close>, the progress of the current node and the
  hazard of the site, with the time stamps and the progress of the events.  The numbers
  that the code only reads or changes by fixed steps (the fields of a node, the cargo, the
  configuration), and the products and sums of those alone, are reals.
\<close>

datatype LootKind = Module | Crate | Intel | Crew

datatype LootTag = Ammo | Fuel | Volatile | Fragile | Heavy | Rare | Ore | Oil

datatype Tool = Crane | Cutter

datatype Stance = Quick | Normal | Careful

text \<open>
  \<open>LootNode\<close>: the fields \<open>id\<close>, \<open>name\<close> and \<open>value\<close> of the source are called
  \<open>nodeId\<close>, \<open>nodeName\<close> and \<open>nodeValue\<close> here.
\<close>

record LootNode =
  nodeId :: string
  nodeName :: string
  kind :: LootKind
  tags :: "LootTag list"
  massKg :: real
  volumeM3 :: real
  condition :: real
  nodeValue :: real
  extractTimeSec :: real
  baseNoisePerSec :: real
  baseHazardPerSec :: real
  requiresTool :: "Tool option"
  volatile :: "bool option"

text \<open>
  Nodes are mutable objects shared by reference between the site, the queue, the engine's
  current node and the caller.  A reference is a natural number and the objects live in
  the \<open>store\<close> of the engine state below; the source compares nodes by their \<open>id\<close>
  field, never by reference, and the model does the same.
\<close>

type_synonym ref = nat

text \<open>
  \<open>Site\<close>: only the fields the engine and the hazard subsystem read or write.  The
  others (id, type, position, baselineNoisePerSec, createdAt, integrity) are untouched by
  the code under study.
\<close>

record Site =
  nodes :: "ref list"
  hazard :: number
  stabilizedVolatiles :: bool
  exhausted :: bool

record CargoState =
  maxMassKg :: real
  maxVolumeM3 :: real
  usedMassKg :: real
  usedVolumeM3 :: real

record ToolsState =
  hasCrane :: bool
  hasCutter :: bool

record OperationOptions =
  stance :: Stance
  waitForSpace :: bool
  autoStabilizeVolatiles :: bool

text \<open>\<open>hazardClamp: { min, max }\<close> is flattened into two fields.\<close>

record SimulationConfig =
  tickRateHz :: real
  hazardClampMin :: real
  hazardClampMax :: real
  hazardThresholds :: "real list"
  stallChanceAtThreshold :: real
  fragileDamageChanceAtThreshold :: real
  volatileExplodeChanceAtThreshold :: real
  volatileRadiusCount :: real
  stabilizeTimeSec :: real
  stabilizeNoisePerSec :: real
  stabilizeEffectMultiplier :: real

text \<open>
  \<open>ExtractionEvent\<close>: every variant carries \<open>timeSec\<close> first, then its payload (the
  node as a reference).
\<close>

datatype ExtractionEvent =
    Tick number
  | ItemStarted number ref nat
  | ItemProgress number ref number
  | ItemTransferred number ref
  | ItemSkipped number ref string
  | ItemStalled number ref string
  | HazardThreshold number real
  | NodeDamaged number ref string
  | NodeDestroyed number ref string
  | StabilizedVolatiles number
  | Aborted number
  | Completed number

record AutoQueuePriorities =
  preferredTags :: "LootTag list"

definition DEFAULT_SIM_CONFIG :: SimulationConfig where
  "DEFAULT_SIM_CONFIG =
     \<lparr> tickRateHz = 10,
       hazardClampMin = 0,
       hazardClampMax = 100,
       hazardThresholds = [30, 60, 90],
       stallChanceAtThreshold = 15 / 100,
       fragileDamageChanceAtThreshold = 25 / 100,
       volatileExplodeChanceAtThreshold = 2 / 10,
       volatileRadiusCount = 2,
       stabilizeTimeSec = 6,
       stabilizeNoisePerSec = 4,
       stabilizeEffectMultiplier = 5 / 10 \<rparr>"

record StanceModifiers =
  timeMultiplier :: real
  noiseMultiplier :: real
  hazardMultiplier :: real
  conditionDelta :: real

fun STANCE_MODIFIERS :: "Stance \<Rightarrow> StanceModifiers" where
  "STANCE_MODIFIERS Quick =
     \<lparr> timeMultiplier = 65 / 100, noiseMultiplier = 135 / 100,
       hazardMultiplier = 135 / 100, conditionDelta = - 10 \<rparr>"
| "STANCE_MODIFIERS Normal =
     \<lparr> timeMultiplier = 1, noiseMultiplier = 1, hazardMultiplier = 1, conditionDelta = 0 \<rparr>"
| "STANCE_MODIFIERS Careful =
     \<lparr> timeMultiplier = 125 / 100, noiseMultiplier = 75 / 100,
       hazardMultiplier = 75 / 100, conditionDelta = 10 \<rparr>"

record HazardState =
  triggeredThresholds :: "real set"

definition createHazardState :: HazardState where
  "createHazardState = \<lparr> triggeredThresholds = {} \<rparr>"

text \<open>
  The engine (class \<open>LootingEngine\<close>) with the three things around it that its methods
  read and write: the object \<open>store\<close>, the ambient random generator and the event sink.
  \<open>Math.random()\<close> returns a number in \<open>[0, 1)\<close>: the generator is an arbitrary sequence
  of reals, \<open>randomDrawn\<close> counts the draws made so far, and a draw is the fractional part
  of the next element, so every draw lies in \<open>[0, 1)\<close> and every number of \<open>[0, 1)\<close> can
  be drawn.  The \<open>emit\<close> callback appends to \<open>emitted\<close>, in emission order.
\<close>

record LootingEngine =
  store :: "ref \<Rightarrow> LootNode"
  site :: Site
  cargo :: CargoState
  tools :: ToolsState
  options :: OperationOptions
  config :: SimulationConfig
  queue :: "ref list"
  isRunning :: bool
  timeSec :: number
  currentNodeProgressSec :: number
  currentNodeTotalSec :: real
  currentNode :: "ref option"
  hazardState :: HazardState
  randomSource :: "nat \<Rightarrow> real"
  randomDrawn :: nat
  emitted :: "ExtractionEvent list"

section \<open>Numeric utilities (util.ts)\<close>

text \<open>
  \<open>clamp(value, min, max)\<close> is \<open>Math.max(min, Math.min(max, value))\<close>: \<open>clamp\<close> on the
  reals (the condition of a node), \<open>clampNumber\<close> on the numbers.
\<close>

definition clamp :: "real \<Rightarrow> real \<Rightarrow> real \<Rightarrow> real" where
  "clamp v mn mx = max mn (min mx v)"

definition clampNumber :: "number \<Rightarrow> number \<Rightarrow> number \<Rightarrow> number" where
  "clampNumber v mn mx = Math_max mn (Math_min mx v)"

definition Math_random :: "LootingEngine \<Rightarrow> real \<times> LootingEngine" where
  "Math_random s =
     (frac (randomSource s (randomDrawn s)), s\<lparr>randomDrawn := Suc (randomDrawn s)\<rparr>)"

text \<open>
  \<open>pickRandom(array, count)\<close>: the loop on \<open>copy\<close> and \<open>picked\<close>.  The index
  \<open>Math.floor(Math.random() * copy.length)\<close> is always below \<open>copy.length\<close>
  (lemma \<open>pickIndex_less\<close>), so \<open>splice(idx, 1)[0]\<close> is \<open>copy[idx]\<close>.
\<close>

definition pickIndex :: "real \<Rightarrow> nat \<Rightarrow> nat" where
  "pickIndex r n = nat \<lfloor>r * real n\<rfloor>"

function pickRandom_loop ::
  "ref list \<Rightarrow> ref list \<Rightarrow> real \<Rightarrow> LootingEngine \<Rightarrow> ref list \<times> LootingEngine" where
  "pickRandom_loop copy picked count s =
     (if real (length picked) < count \<and> length copy > 0 then
        (let idx = pickIndex (fst (Math_random s)) (length copy)
         in pickRandom_loop (take idx copy @ drop (Suc idx) copy) (picked @ [copy ! idx])
              count (snd (Math_random s)))
      else (picked, s))"
  by pat_completeness auto
termination
proof (relation "measure (\<lambda>(copy, picked, count, s). length copy)")
  show "wf (measure (\<lambda>(copy, picked, count, s). length copy))" by simp
next
  fix copy picked :: "ref list" and count :: real and s :: LootingEngine and idx :: nat
  assume a: "real (length picked) < count \<and> 0 < length copy"
    and i: "idx = pickIndex (fst (Math_random s)) (length copy)"
  let ?r = "frac (randomSource s (randomDrawn s))"
  have "?r * real (length copy) < real (length copy)"
    using a frac_lt_1 [of "randomSource s (randomDrawn s)"] by simp
  moreover have "0 \<le> ?r * real (length copy)"
    by simp
  ultimately have "idx < length copy"
    unfolding i pickIndex_def Math_random_def by (simp add: floor_less_iff nat_less_iff)
  then show "((take idx copy @ drop (Suc idx) copy, picked @ [copy ! idx], count,
      snd (Math_random s)), copy, picked, count, s)
    \<in> measure (\<lambda>(copy, picked, count, s). length copy)"
    by simp
qed

declare pickRandom_loop.simps [simp del]

definition pickRandom :: "ref list \<Rightarrow> real \<Rightarrow> LootingEngine \<Rightarrow> ref list \<times> LootingEngine" where
  "pickRandom array count s = pickRandom_loop array [] count s"

definition weightedValuePerKg :: "real \<Rightarrow> real \<Rightarrow> bool \<Rightarrow> real" where
  "weightedValuePerKg v m isPreferred =
     (if m \<le> 0 then (if isPreferred then v * 2 else v)
      else (let base = v / m in if isPreferred then base * 2 else base))"

section \<open>Auto-queue planner (autoQueue.ts)\<close>

text \<open>
  \<open>computeAutoQueue\<close> only reads its nodes, so it takes them by value.  The greedy loop
  is \<open>autoQueue_scan\<close>, with the loop variables \<open>result\<close>, \<open>mass\<close> and \<open>vol\<close>;
  \<open>Array.prototype.sort\<close> is stable, as is \<open>sort_key\<close>, and the comparator
  \<open>b.score - a.score\<close> sorts by descending score.
\<close>

fun autoQueue_scan ::
  "LootNode list \<Rightarrow> CargoState \<Rightarrow> real \<Rightarrow> LootNode list \<Rightarrow> real \<Rightarrow> real \<Rightarrow> LootNode list" where
  "autoQueue_scan [] crg maxItems result mass vol = result"
| "autoQueue_scan (node # rest) crg maxItems result mass vol =
     (if real (length result) \<ge> maxItems then result
      else if mass + massKg node \<le> maxMassKg crg \<and> vol + volumeM3 node \<le> maxVolumeM3 crg
        then autoQueue_scan rest crg maxItems (result @ [node])
               (mass + massKg node) (vol + volumeM3 node)
        else autoQueue_scan rest crg maxItems result mass vol)"

definition autoQueue_ranked :: "LootNode list \<Rightarrow> AutoQueuePriorities \<Rightarrow> LootNode list" where
  "autoQueue_ranked ns priorities =
     (let preferred = take 3 (preferredTags priorities)
      in map fst
           (sort_key (\<lambda>x. - snd x)
              (map (\<lambda>n. (n, weightedValuePerKg (nodeValue n) (massKg n)
                               (list_ex (\<lambda>t. t \<in> set preferred) (tags n))))
                 (filter (\<lambda>n. nodeValue n > 0) ns))))"

definition computeAutoQueue ::
  "LootNode list \<Rightarrow> CargoState \<Rightarrow> AutoQueuePriorities \<Rightarrow> real \<Rightarrow> LootNode list" where
  "computeAutoQueue ns crg priorities maxItems =
     autoQueue_scan (autoQueue_ranked ns priorities) crg maxItems []
       (usedMassKg crg) (usedVolumeM3 crg)"

section \<open>Hazard subsystem (hazard.ts)\<close>

definition emit :: "ExtractionEvent \<Rightarrow> LootingEngine \<Rightarrow> LootingEngine" where
  "emit e s = s\<lparr>emitted := emitted s @ [e]\<rparr>"

definition addHazard :: "number \<Rightarrow> LootingEngine \<Rightarrow> LootingEngine" where
  "addHazard amount s =
     s\<lparr>site := (site s)\<lparr>hazard :=
          clampNumber (num_add (hazard (site s)) amount)
            (Num (hazardClampMin (config s))) (Num (hazardClampMax (config s)))\<rparr>\<rparr>"

text \<open>
  The callbacks \<open>onNodeDamaged\<close>, \<open>onNodeDestroyed\<close> and \<open>onThreshold\<close> are parameters,
  as in the source; each is a state transformer.
\<close>

type_synonym nodeCallback = "ref \<Rightarrow> string \<Rightarrow> LootingEngine \<Rightarrow> LootingEngine"

definition setCondition :: "ref \<Rightarrow> real \<Rightarrow> LootingEngine \<Rightarrow> LootingEngine" where
  "setCondition n c s = s\<lparr>store := (store s)(n := (store s n)\<lparr>condition := c\<rparr>)\<rparr>"

definition setExtractTimeSec :: "ref \<Rightarrow> real \<Rightarrow> LootingEngine \<Rightarrow> LootingEngine" where
  "setExtractTimeSec n c s = s\<lparr>store := (store s)(n := (store s n)\<lparr>extractTimeSec := c\<rparr>)\<rparr>"

text \<open>The loop over the neighbours picked after a detonation.\<close>

fun blastNeighbors :: "nodeCallback \<Rightarrow> nodeCallback \<Rightarrow> ref list \<Rightarrow> LootingEngine \<Rightarrow> LootingEngine" where
  "blastNeighbors onNodeDamaged onNodeDestroyed [] s = s"
| "blastNeighbors onNodeDamaged onNodeDestroyed (neighbor # rest) s =
     (let r = fst (Math_random s); s1 = snd (Math_random s)
      in if r < 1 / 2 then
           (let s2 = setCondition neighbor (max 0 (condition (store s1 neighbor) - 25)) s1;
                s3 = onNodeDamaged neighbor (nodeName (store s2 neighbor) @ '' damaged by blast.'') s2;
                s4 = (if condition (store s3 neighbor) \<le> 0
                      then onNodeDestroyed neighbor
                             (nodeName (store s3 neighbor) @ '' destroyed by blast damage.'') s3
                      else s3)
            in blastNeighbors onNodeDamaged onNodeDestroyed rest s4)
         else blastNeighbors onNodeDamaged onNodeDestroyed rest s1)"

text \<open>
  The loop over \<open>volatileCandidates\<close>, a list computed once before the loop; the
  neighbours are picked from the live \<open>site.nodes\<close>.
\<close>

fun volatileLoop :: "nodeCallback \<Rightarrow> nodeCallback \<Rightarrow> ref list \<Rightarrow> LootingEngine \<Rightarrow> LootingEngine" where
  "volatileLoop onNodeDamaged onNodeDestroyed [] s = s"
| "volatileLoop onNodeDamaged onNodeDestroyed (node # rest) s =
     (let chance = volatileExplodeChanceAtThreshold (config s) *
                     (if stabilizedVolatiles (site s) then stabilizeEffectMultiplier (config s) else 1);
          r = fst (Math_random s); s1 = snd (Math_random s)
      in if r < chance then
           (let s2 = onNodeDestroyed node
                       (nodeName (store s1 node) @ '' detonated due to rising hazard.'') s1;
                picked = pickRandom
                           (filter (\<lambda>n. nodeId (store s2 n) \<noteq> nodeId (store s2 node)) (nodes (site s2)))
                           (volatileRadiusCount (config s2)) s2
            in volatileLoop onNodeDamaged onNodeDestroyed rest
                 (blastNeighbors onNodeDamaged onNodeDestroyed (fst picked) (snd picked)))
         else volatileLoop onNodeDamaged onNodeDestroyed rest s1)"

fun fragileLoop :: "nodeCallback \<Rightarrow> ref list \<Rightarrow> LootingEngine \<Rightarrow> LootingEngine" where
  "fragileLoop onNodeDamaged [] s = s"
| "fragileLoop onNodeDamaged (node # rest) s =
     (if Fragile \<in> set (tags (store s node)) then
        (let r = fst (Math_random s); s1 = snd (Math_random s)
         in if r < fragileDamageChanceAtThreshold (config s1) then
              (let s2 = setCondition node (max 0 (condition (store s1 node) - 15)) s1
               in fragileLoop onNodeDamaged rest
                    (onNodeDamaged node
                       (nodeName (store s2 node) @ '' condition dropped due to instability.'') s2))
            else fragileLoop onNodeDamaged rest s1)
      else fragileLoop onNodeDamaged rest s)"

fun stallLoop :: "nodeCallback \<Rightarrow> ref list \<Rightarrow> LootingEngine \<Rightarrow> LootingEngine" where
  "stallLoop onNodeDamaged [] s = s"
| "stallLoop onNodeDamaged (node # rest) s =
     (let r = fst (Math_random s); s1 = snd (Math_random s)
      in if r < stallChanceAtThreshold (config s1) then
           (let s2 = setExtractTimeSec node (extractTimeSec (store s1 node) + 3) s1
            in stallLoop onNodeDamaged rest
                 (onNodeDamaged node
                    (nodeName (store s2 node) @ '' encountered a stall; extraction slowed.'') s2))
         else stallLoop onNodeDamaged rest s1)"

definition isVolatileCandidate :: "LootNode \<Rightarrow> bool" where
  "isVolatileCandidate n \<longleftrightarrow>
     Volatile \<in> set (tags n) \<or> Ammo \<in> set (tags n) \<or> Fuel \<in> set (tags n)"

definition rollThresholdEffects :: "nodeCallback \<Rightarrow> nodeCallback \<Rightarrow> LootingEngine \<Rightarrow> LootingEngine" where
  "rollThresholdEffects onNodeDamaged onNodeDestroyed s =
     (let volatileCandidates = filter (\<lambda>n. isVolatileCandidate (store s n)) (nodes (site s));
          s1 = volatileLoop onNodeDamaged onNodeDestroyed volatileCandidates s;
          s2 = fragileLoop onNodeDamaged (nodes (site s1)) s1
      in stallLoop onNodeDamaged (nodes (site s2)) s2)"

fun checkThresholdLoop ::
  "nodeCallback \<Rightarrow> nodeCallback \<Rightarrow> (real \<Rightarrow> LootingEngine \<Rightarrow> LootingEngine) \<Rightarrow>
   real list \<Rightarrow> LootingEngine \<Rightarrow> LootingEngine" where
  "checkThresholdLoop onNodeDamaged onNodeDestroyed onThreshold [] s = s"
| "checkThresholdLoop onNodeDamaged onNodeDestroyed onThreshold (t # ts) s =
     (if num_ge (hazard (site s)) (Num t) \<and> t \<notin> triggeredThresholds (hazardState s) then
        (let s1 = s\<lparr>hazardState := (hazardState s)\<lparr>triggeredThresholds :=
                       insert t (triggeredThresholds (hazardState s))\<rparr>\<rparr>;
             s2 = onThreshold t s1
         in checkThresholdLoop onNodeDamaged onNodeDestroyed onThreshold ts
              (rollThresholdEffects onNodeDamaged onNodeDestroyed s2))
      else checkThresholdLoop onNodeDamaged onNodeDestroyed onThreshold ts s)"

definition checkThresholdEvents ::
  "nodeCallback \<Rightarrow> nodeCallback \<Rightarrow> (real \<Rightarrow> LootingEngine \<Rightarrow> LootingEngine) \<Rightarrow>
   LootingEngine \<Rightarrow> LootingEngine" where
  "checkThresholdEvents onNodeDamaged onNodeDestroyed onThreshold s =
     checkThresholdLoop onNodeDamaged onNodeDestroyed onThreshold (hazardThresholds (config s)) s"

section \<open>Extraction engine (engine.ts)\<close>

text \<open>
  The constructor.  \<open>cfg\<close> is the configuration after the merge
  \<open>{ ...DEFAULT_SIM_CONFIG, ...init.config }\<close>; \<open>objs\<close> and \<open>rnd\<close> are the objects and
  the random generator the engine finds around it.
\<close>

definition newEngine ::
  "(ref \<Rightarrow> LootNode) \<Rightarrow> (nat \<Rightarrow> real) \<Rightarrow> Site \<Rightarrow> CargoState \<Rightarrow> ToolsState \<Rightarrow>
   OperationOptions \<Rightarrow> SimulationConfig \<Rightarrow> LootingEngine" where
  "newEngine objs rnd st ca tls opts cfg =
     \<lparr> store = objs, site = st, cargo = ca, tools = tls, options = opts, config = cfg,
       queue = [], isRunning = False, timeSec = Num 0, currentNodeProgressSec = Num 0,
       currentNodeTotalSec = 0, currentNode = None, hazardState = createHazardState,
       randomSource = rnd, randomDrawn = 0, emitted = [] \<rparr>"

definition getQueue :: "LootingEngine \<Rightarrow> ref list" where
  "getQueue s = queue s"

definition inSite :: "ref \<Rightarrow> LootingEngine \<Rightarrow> bool" where
  "inSite n s = list_ex (\<lambda>x. nodeId (store s x) = nodeId (store s n)) (nodes (site s))"

fun enqueue :: "ref list \<Rightarrow> LootingEngine \<Rightarrow> LootingEngine" where
  "enqueue [] s = s"
| "enqueue (n # ns) s =
     enqueue ns (if inSite n s then s\<lparr>queue := queue s @ [n]\<rparr> else s)"

text \<open>
  \<open>splice\<close> truncates a fractional index; the indices that reach it here are not
  negative, where truncation is the floor.
\<close>

definition reorderQueue :: "real \<Rightarrow> real \<Rightarrow> LootingEngine \<Rightarrow> LootingEngine" where
  "reorderQueue index newIndex s =
     (if index < 0 \<or> index \<ge> real (length (queue s)) then s
      else (let i = nat \<lfloor>index\<rfloor>;
                item = queue s ! i;
                q1 = take i (queue s) @ drop (Suc i) (queue s);
                j = nat \<lfloor>max 0 (min newIndex (real (length q1)))\<rfloor>
            in s\<lparr>queue := take j q1 @ [item] @ drop j q1\<rparr>))"

definition clearQueue :: "LootingEngine \<Rightarrow> LootingEngine" where
  "clearQueue s = s\<lparr>queue := []\<rparr>"

record ExtractCheck =
  ok :: bool
  reason :: "string option"

definition canExtract :: "ref \<Rightarrow> LootingEngine \<Rightarrow> ExtractCheck" where
  "canExtract node s =
     (if requiresTool (store s node) = Some Crane \<and> \<not> hasCrane (tools s)
        then \<lparr> ok = False, reason = Some ''Requires Crane'' \<rparr>
      else if requiresTool (store s node) = Some Cutter \<and> \<not> hasCutter (tools s)
        then \<lparr> ok = False, reason = Some ''Requires Cutter'' \<rparr>
      else (let fits = (usedMassKg (cargo s) + massKg (store s node) \<le> maxMassKg (cargo s) \<and>
                        usedVolumeM3 (cargo s) + volumeM3 (store s node) \<le> maxVolumeM3 (cargo s))
            in if \<not> fits \<and> \<not> waitForSpace (options s)
                 then \<lparr> ok = False, reason = Some ''Insufficient cargo space'' \<rparr>
               else \<lparr> ok = True, reason = None \<rparr>))"

definition consumeCargo :: "ref \<Rightarrow> LootingEngine \<Rightarrow> LootingEngine" where
  "consumeCargo node s =
     s\<lparr>cargo := (cargo s)\<lparr>usedMassKg := usedMassKg (cargo s) + massKg (store s node),
                          usedVolumeM3 := usedVolumeM3 (cargo s) + volumeM3 (store s node)\<rparr>\<rparr>"

definition removeNodeFromSite :: "string \<Rightarrow> LootingEngine \<Rightarrow> LootingEngine" where
  "removeNodeFromSite nid s =
     (let s1 = s\<lparr>site := (site s)\<lparr>nodes := filter (\<lambda>n. nodeId (store s n) \<noteq> nid) (nodes (site s))\<rparr>\<rparr>
      in if length (nodes (site s1)) = 0 then s1\<lparr>site := (site s1)\<lparr>exhausted := True\<rparr>\<rparr> else s1)"

definition reasonOrSkipped :: "ExtractCheck \<Rightarrow> string" where
  "reasonOrSkipped can = (case reason can of None \<Rightarrow> ''Skipped'' | Some r \<Rightarrow> r)"

text \<open>The \<open>while (this.queue.length > 0)\<close> loop of \<open>startNextNode\<close> and what follows it.\<close>

function startNextNode_loop :: "LootingEngine \<Rightarrow> LootingEngine" where
  "startNextNode_loop s =
     (case queue s of
        [] \<Rightarrow> emit (Completed (timeSec s)) (s\<lparr>isRunning := False\<rparr>)
      | node # rest \<Rightarrow>
          if \<not> inSite node s then startNextNode_loop (s\<lparr>queue := rest\<rparr>)
          else (let can = canExtract node s
                in if \<not> ok can then
                     (if \<not> waitForSpace (options s) \<or> reason can \<noteq> Some ''Insufficient cargo space''
                      then startNextNode_loop
                             (emit (ItemSkipped (timeSec s) node (reasonOrSkipped can))
                                (s\<lparr>queue := rest\<rparr>))
                      else s)
                   else emit (ItemStarted (timeSec s) node 0)
                          (s\<lparr>currentNode := Some node,
                             currentNodeTotalSec :=
                               max (1 / 2) (extractTimeSec (store s node) *
                                            timeMultiplier (STANCE_MODIFIERS (stance (options s)))),
                             currentNodeProgressSec := Num 0\<rparr>)))"
  by pat_completeness auto
termination
  by (relation "measure (\<lambda>s. length (queue s))") (auto simp: emit_def)

declare startNextNode_loop.simps [simp del]

definition startNextNode :: "LootingEngine \<Rightarrow> LootingEngine" where
  "startNextNode s =
     startNextNode_loop
       (s\<lparr>currentNode := None, currentNodeProgressSec := Num 0, currentNodeTotalSec := 0\<rparr>)"

text \<open>The three callbacks \<open>tickHazard\<close> passes to \<open>checkThresholdEvents\<close>.\<close>

definition tickHazard_onNodeDamaged :: nodeCallback where
  "tickHazard_onNodeDamaged node message s = emit (NodeDamaged (timeSec s) node message) s"

definition tickHazard_onNodeDestroyed :: nodeCallback where
  "tickHazard_onNodeDestroyed node message s =
     emit (NodeDestroyed (timeSec s) node message)
       (s\<lparr>site := (site s)\<lparr>nodes :=
             filter (\<lambda>n. nodeId (store s n) \<noteq> nodeId (store s node)) (nodes (site s))\<rparr>\<rparr>)"

definition tickHazard_onThreshold :: "real \<Rightarrow> LootingEngine \<Rightarrow> LootingEngine" where
  "tickHazard_onThreshold threshold s = emit (HazardThreshold (timeSec s) threshold) s"

definition tickHazard :: "real \<Rightarrow> number \<Rightarrow> LootingEngine \<Rightarrow> LootingEngine" where
  "tickHazard currentItemHazardPerSec dtSec s =
     (let hazardPerSec = currentItemHazardPerSec *
                           hazardMultiplier (STANCE_MODIFIERS (stance (options s)));
          s1 = addHazard (num_mul (Num hazardPerSec) dtSec) s
      in checkThresholdEvents tickHazard_onNodeDamaged tickHazard_onNodeDestroyed
           tickHazard_onThreshold s1)"

text \<open>
  \<open>maybeStabilize\<close>: \<open>ticks = Math.ceil((dur * tickRateHz) || 1)\<close>, where \<open>x || 1\<close> is 1
  when \<open>x\<close> is 0; the \<open>for\<close> loop runs \<open>ticks\<close> times, not at all when \<open>ticks\<close> is
  negative.
\<close>

primrec stabilizeLoop :: "nat \<Rightarrow> LootingEngine \<Rightarrow> LootingEngine" where
  "stabilizeLoop 0 s = s"
| "stabilizeLoop (Suc n) s =
     stabilizeLoop n (tickHazard 0 (num_div (Num 1) (Num (tickRateHz (config s)))) s)"

definition stabilizeTicks :: "SimulationConfig \<Rightarrow> int" where
  "stabilizeTicks cfg =
     (let x = stabilizeTimeSec cfg * tickRateHz cfg in \<lceil>if x = 0 then 1 else x\<rceil>)"

definition maybeStabilize :: "number \<Rightarrow> LootingEngine \<Rightarrow> LootingEngine" where
  "maybeStabilize dtSec s =
     (if \<not> stabilizedVolatiles (site s) \<and> autoStabilizeVolatiles (options s) then
        (let s1 = s\<lparr>site := (site s)\<lparr>stabilizedVolatiles := True\<rparr>\<rparr>;
             s2 = emit (StabilizedVolatiles (timeSec s1)) s1
         in stabilizeLoop (nat (stabilizeTicks (config s2))) s2)
      else s)"

text \<open>
  \<open>runStep\<close> in three parts: the block under \<open>if (progress >= 1)\<close>, the part from
  \<open>tickHazard\<close> on, for which the current node is known, and the whole.
\<close>

definition runStep_finish :: "ref \<Rightarrow> LootingEngine \<Rightarrow> LootingEngine" where
  "runStep_finish node s5 =
     (let can = canExtract node s5
      in if \<not> ok can then
           (emit (ItemSkipped (timeSec s5) node (reasonOrSkipped can)) s5)
             \<lparr>queue := tl (queue s5), currentNode := None\<rparr>
         else
           (let s6 = setCondition node
                       (clamp (condition (store s5 node) +
                               conditionDelta (STANCE_MODIFIERS (stance (options s5)))) 0 100) s5;
                s7 = consumeCargo node s6;
                s8 = removeNodeFromSite (nodeId (store s7 node)) s7;
                s9 = s8\<lparr>queue := tl (queue s8)\<rparr>;
                s10 = emit (ItemTransferred (timeSec s9) node) s9
            in s10\<lparr>currentNode := None\<rparr>))"

definition runStep_progress :: "number \<Rightarrow> ref \<Rightarrow> LootingEngine \<Rightarrow> LootingEngine" where
  "runStep_progress dtSec node s =
     (let s3 = tickHazard (baseHazardPerSec (store s node)) dtSec s;
          s4 = s3\<lparr>currentNodeProgressSec := num_add (currentNodeProgressSec s3) dtSec\<rparr>;
          progress = clampNumber
                       (num_div (currentNodeProgressSec s4) (Num (currentNodeTotalSec s4)))
                       (Num 0) (Num 1);
          s5 = emit (ItemProgress (timeSec s4) node progress) s4
      in if num_ge progress (Num 1) then runStep_finish node s5 else s5)"

definition runStep :: "LootingEngine \<Rightarrow> LootingEngine" where
  "runStep s =
     (if \<not> isRunning s then s
      else (let dtSec = num_div (Num 1) (Num (tickRateHz (config s)));
                s1 = s\<lparr>timeSec := num_add (timeSec s) dtSec\<rparr>;
                s2 = (case currentNode s1 of None \<Rightarrow> startNextNode s1 | Some _ \<Rightarrow> s1)
            in if currentNode s1 = None \<and> \<not> isRunning s2 then s2
               else (case currentNode s2 of
                       None \<Rightarrow> s2
                     | Some node \<Rightarrow> runStep_progress dtSec node s2)))"

definition start :: "LootingEngine \<Rightarrow> LootingEngine" where
  "start s = (if isRunning s then s else maybeStabilize (Num 0) (s\<lparr>isRunning := True\<rparr>))"

definition abort :: "LootingEngine \<Rightarrow> LootingEngine" where
  "abort s = (if \<not> isRunning s then s else emit (Aborted (timeSec s)) (s\<lparr>isRunning := False\<rparr>))"

text \<open>A driver's calls of the public operations, and their effect in sequence.\<close>

datatype EngineOp =
    OpEnqueue "ref list"
  | OpReorderQueue real real
  | OpClearQueue
  | OpStart
  | OpRunStep
  | OpAbort

fun applyOp :: "EngineOp \<Rightarrow> LootingEngine \<Rightarrow> LootingEngine" where
  "applyOp (OpEnqueue ns) s = enqueue ns s"
| "applyOp (OpReorderQueue i j) s = reorderQueue i j s"
| "applyOp OpClearQueue s = clearQueue s"
| "applyOp OpStart s = start s"
| "applyOp OpRunStep s = runStep s"
| "applyOp OpAbort s = abort s"

fun applyOps :: "EngineOp list \<Rightarrow> LootingEngine \<Rightarrow> LootingEngine" where
  "applyOps [] s = s"
| "applyOps (opn # ops) s = applyOps ops (applyOp opn s)"


section \<open>Properties\<close>

subsection \<open>Predicates of the statements\<close>

definition conditionInRange :: "LootNode \<Rightarrow> bool" where
  "conditionInRange n \<longleftrightarrow> 0 \<le> condition n \<and> condition n \<le> 100"

definition hazardInRange :: "LootingEngine \<Rightarrow> bool" where
  "hazardInRange s \<longleftrightarrow>
     num_ge (hazard (site s)) (Num (hazardClampMin (config s))) \<and>
     num_ge (Num (hazardClampMax (config s))) (hazard (site s))"

text \<open>
  The tick length \<open>1 / tickRateHz\<close> that \<open>runStep\<close> and \<open>maybeStabilize\<close> compute, and
  whether a number is finite.
\<close>

definition tickLength :: "SimulationConfig \<Rightarrow> number" where
  "tickLength cfg = num_div (Num 1) (Num (tickRateHz cfg))"

fun isFinite :: "number \<Rightarrow> bool" where
  "isFinite (Num x) = True"
| "isFinite a = False"

text \<open>\<open>isNumber a\<close>: \<open>a\<close> is a JavaScript number, that is, its finite value is a double.\<close>

fun isNumber :: "number \<Rightarrow> bool" where
  "isNumber (Num x) = isDouble x"
| "isNumber a = True"

text \<open>The thresholds of the \<open>HazardThreshold\<close> events of an event list, in emission order.\<close>

fun firedThresholds :: "ExtractionEvent list \<Rightarrow> real list" where
  "firedThresholds [] = []"
| "firedThresholds (HazardThreshold ts t # es) = t # firedThresholds es"
| "firedThresholds (e # es) = firedThresholds es"

text \<open>
  What one run of the loop of \<open>checkThresholdEvents\<close> fires at hazard \<open>h\<close>, from the set
  \<open>trig\<close> of thresholds already triggered, and what the firing of one threshold does:
  it records the threshold, emits its event and runs the effect pass, once.
\<close>

fun newlyFired :: "number \<Rightarrow> real set \<Rightarrow> real list \<Rightarrow> real list" where
  "newlyFired h trig [] = []"
| "newlyFired h trig (t # ts) =
     (if num_ge h (Num t) \<and> t \<notin> trig then t # newlyFired h (insert t trig) ts
      else newlyFired h trig ts)"


definition thresholdInv :: "LootingEngine \<Rightarrow> bool" where
  "thresholdInv s \<longleftrightarrow>
     distinct (firedThresholds (emitted s)) \<and>
     set (firedThresholds (emitted s)) \<subseteq> triggeredThresholds (hazardState s)"

text \<open>
  \<open>hazardFrame s s'\<close>: what every step but \<open>addHazard\<close> and the firing of a threshold
  leaves as it is.
\<close>

definition hazardFrame :: "LootingEngine \<Rightarrow> LootingEngine \<Rightarrow> bool" where
  "hazardFrame s s' \<longleftrightarrow>
     config s' = config s \<and> options s' = options s \<and>
     hazard (site s') = hazard (site s) \<and>
     hazardState s' = hazardState s \<and>
     firedThresholds (emitted s') = firedThresholds (emitted s) \<and>
     (\<forall>r. conditionInRange (store s r) \<longrightarrow> conditionInRange (store s' r))"

text \<open>
  \<open>stepRel s s'\<close>: what every step of the engine keeps; the hazard stays within the clamp
  range when the tick length is finite.
\<close>

definition stepRel :: "LootingEngine \<Rightarrow> LootingEngine \<Rightarrow> bool" where
  "stepRel s s' \<longleftrightarrow>
     config s' = config s \<and> options s' = options s \<and>
     (\<forall>r. conditionInRange (store s r) \<longrightarrow> conditionInRange (store s' r)) \<and>
     (thresholdInv s \<longrightarrow> thresholdInv s') \<and>
     triggeredThresholds (hazardState s) \<subseteq> triggeredThresholds (hazardState s') \<and>
     (hazardClampMin (config s) \<le> hazardClampMax (config s) \<and> hazardInRange s \<and>
      isFinite (tickLength (config s)) \<longrightarrow> hazardInRange s')"

subsection \<open>Scenarios\<close>

text \<open>
  The scenario of the spec's first test: one crate (mass 10, volume 1, value 100, ten
  seconds to extract, no tool, no tags) that contributes no hazard, the demo's cargo hold,
  stance Normal, the default configuration.
\<close>

definition crate :: LootNode where
  "crate =
     \<lparr> nodeId = ''node_1'', nodeName = ''Crate'', kind = Crate, tags = [], massKg = 10,
       volumeM3 = 1, condition = 80, nodeValue = 100, extractTimeSec = 10,
       baseNoisePerSec = 0, baseHazardPerSec = 0, requiresTool = None, volatile = None \<rparr>"

definition oneNodeSite :: Site where
  "oneNodeSite = \<lparr> nodes = [0], hazard = Num 0, stabilizedVolatiles = False, exhausted = False \<rparr>"

definition demoCargo :: CargoState where
  "demoCargo = \<lparr> maxMassKg = 3000, maxVolumeM3 = 10, usedMassKg = 0, usedVolumeM3 = 0 \<rparr>"

definition allTools :: ToolsState where
  "allTools = \<lparr> hasCrane = True, hasCutter = True \<rparr>"

definition plainOptions :: OperationOptions where
  "plainOptions = \<lparr> stance = Normal, waitForSpace = False, autoStabilizeVolatiles = False \<rparr>"

definition crateEngine :: LootingEngine where
  "crateEngine =
     newEngine (\<lambda>_. crate) (\<lambda>_. 0) oneNodeSite demoCargo allTools plainOptions DEFAULT_SIM_CONFIG"

text \<open>Two nodes for the planner: a heavy one that scores higher and a light one.\<close>

definition heavyNode :: LootNode where
  "heavyNode = crate\<lparr>nodeId := ''node_2'', nodeName := ''Turret'', massKg := 8000, nodeValue := 8000000\<rparr>"

definition overfullCargo :: CargoState where
  "overfullCargo = demoCargo\<lparr>usedMassKg := 3500\<rparr>"

definition noPriorities :: AutoQueuePriorities where
  "noPriorities = \<lparr> preferredTags = [] \<rparr>"

text \<open>
  The same scenario with everything it leaves open as a parameter: the objects \<open>objs\<close>
  with the crate at reference \<open>n\<close>, the only node of the site \<open>st\<close>; a cargo \<open>ca\<close>
  with room for the crate; options \<open>opts\<close> with stance Normal; a configuration \<open>cfg\<close>
  with ten ticks per second.  The numbers of the run are those the engine computes:
  \<open>crateClock j\<close> is the clock after \<open>j\<close> steps, the sum of \<open>j\<close> ticks of \<open>1 / 10\<close>
  each, which is also the progress of the crate in seconds; \<open>crateProgress j\<close> is the
  progress that the \<open>j\<close>-th step reports; \<open>crateHazard rate cfg h j\<close> is the hazard
  after \<open>j\<close> steps from the hazard \<open>h\<close>, for a crate of hazard rate \<open>rate\<close>.  The
  hazard of the site is a number of the clamp range and, up to the step that transfers
  the crate, the hazard reaches no threshold.
\<close>

primrec tickSum :: "number \<Rightarrow> nat \<Rightarrow> number" where
  "tickSum a 0 = a"
| "tickSum a (Suc j) = num_add (tickSum a j) (num_div (Num 1) (Num 10))"

definition crateClock :: "nat \<Rightarrow> number" where
  "crateClock j = tickSum (Num 0) j"

definition progressOf :: "number \<Rightarrow> number" where
  "progressOf a = clampNumber (num_div a (Num 10)) (Num 0) (Num 1)"

definition crateProgress :: "nat \<Rightarrow> number" where
  "crateProgress j = progressOf (crateClock j)"

primrec crateHazard :: "real \<Rightarrow> SimulationConfig \<Rightarrow> number \<Rightarrow> nat \<Rightarrow> number" where
  "crateHazard rate cfg h 0 = h"
| "crateHazard rate cfg h (Suc j) =
     clampNumber (num_add (crateHazard rate cfg h j) (num_mul (Num rate) (num_div (Num 1) (Num 10))))
       (Num (hazardClampMin cfg)) (Num (hazardClampMax cfg))"

definition crateScenario ::
  "(ref \<Rightarrow> LootNode) \<Rightarrow> ref \<Rightarrow> Site \<Rightarrow> CargoState \<Rightarrow> OperationOptions \<Rightarrow> SimulationConfig \<Rightarrow> bool" where
  "crateScenario objs n st ca opts cfg \<longleftrightarrow>
     massKg (objs n) = 10 \<and> volumeM3 (objs n) = 1 \<and> nodeValue (objs n) = 100 \<and>
     extractTimeSec (objs n) = 10 \<and> requiresTool (objs n) = None \<and> tags (objs n) = [] \<and>
     nodes st = [n] \<and>
     stance opts = Normal \<and>
     usedMassKg ca + 10 \<le> maxMassKg ca \<and> usedVolumeM3 ca + 1 \<le> maxVolumeM3 ca \<and>
     tickRateHz cfg = 10 \<and>
     isNumber (hazard st) \<and>
     num_ge (hazard st) (Num (hazardClampMin cfg)) \<and>
     num_ge (Num (hazardClampMax cfg)) (hazard st) \<and>
     (\<forall>j \<le> 101. \<forall>t \<in> set (hazardThresholds cfg).
        \<not> num_ge (crateHazard (baseHazardPerSec (objs n)) cfg (hazard st) j) (Num t))"

text \<open>
  \<open>progressBelowOne a k\<close>: none of the next \<open>k\<close> ticks from the progress \<open>a\<close> seconds
  reports the progress 1.
\<close>

primrec progressBelowOne :: "number \<Rightarrow> nat \<Rightarrow> bool" where
  "progressBelowOne a 0 = True"
| "progressBelowOne a (Suc k) =
     (\<not> num_ge (progressOf (num_add a (num_div (Num 1) (Num 10)))) (Num 1) \<and>
      progressBelowOne (num_add a (num_div (Num 1) (Num 10))) k)"

text \<open>
  What \<open>start\<close> emits in that scenario, and the engine after \<open>enqueue\<close>, \<open>start\<close> and
  \<open>j\<close> steps, for \<open>j\<close> from 1 to 100.
\<close>

definition stabilizationEvents :: "Site \<Rightarrow> OperationOptions \<Rightarrow> ExtractionEvent list" where
  "stabilizationEvents st opts =
     (if \<not> stabilizedVolatiles st \<and> autoStabilizeVolatiles opts then [StabilizedVolatiles (Num 0)]
      else [])"

definition crateProgressEvents :: "ref \<Rightarrow> nat \<Rightarrow> ExtractionEvent list" where
  "crateProgressEvents n j =
     map (\<lambda>k. ItemProgress (crateClock k) n (crateProgress k)) [1..<Suc j]"

definition crateRun ::
  "(ref \<Rightarrow> LootNode) \<Rightarrow> (nat \<Rightarrow> real) \<Rightarrow> ref \<Rightarrow> Site \<Rightarrow> CargoState \<Rightarrow> ToolsState \<Rightarrow>
   OperationOptions \<Rightarrow> SimulationConfig \<Rightarrow> nat \<Rightarrow> LootingEngine" where
  "crateRun objs rnd n st ca tls opts cfg j =
     (newEngine objs rnd st ca tls opts cfg)
       \<lparr> site := st\<lparr>hazard := crateHazard (baseHazardPerSec (objs n)) cfg (hazard st) j,
                   stabilizedVolatiles := stabilizedVolatiles st \<or> autoStabilizeVolatiles opts\<rparr>,
         queue := [n], isRunning := True, timeSec := crateClock j,
         currentNodeProgressSec := crateClock j, currentNodeTotalSec := 10,
         currentNode := Some n,
         emitted := stabilizationEvents st opts @
                    ItemStarted (crateClock 1) n 0 # crateProgressEvents n j \<rparr>"

text \<open>The engine of that scenario after the step that transfers the crate, the 101st.\<close>

definition crateDone ::
  "(ref \<Rightarrow> LootNode) \<Rightarrow> (nat \<Rightarrow> real) \<Rightarrow> ref \<Rightarrow> Site \<Rightarrow> CargoState \<Rightarrow> ToolsState \<Rightarrow>
   OperationOptions \<Rightarrow> SimulationConfig \<Rightarrow> LootingEngine" where
  "crateDone objs rnd n st ca tls opts cfg =
     (newEngine objs rnd st ca tls opts cfg)
       \<lparr> store := objs(n := (objs n)\<lparr>condition := clamp (condition (objs n)) 0 100\<rparr>),
         site := st\<lparr>nodes := [],
                   hazard := crateHazard (baseHazardPerSec (objs n)) cfg (hazard st) 101,
                   stabilizedVolatiles := stabilizedVolatiles st \<or> autoStabilizeVolatiles opts,
                   exhausted := True\<rparr>,
         cargo := ca\<lparr>usedMassKg := usedMassKg ca + 10, usedVolumeM3 := usedVolumeM3 ca + 1\<rparr>,
         queue := [], isRunning := True, timeSec := crateClock 101,
         currentNodeProgressSec := crateClock 101, currentNodeTotalSec := 10,
         currentNode := None,
         emitted := stabilizationEvents st opts @
                    ItemStarted (crateClock 1) n 0 # crateProgressEvents n 101 @
                    [ItemTransferred (crateClock 101) n] \<rparr>"

text \<open>Which events are of a given type.\<close>

fun isItemStarted :: "ExtractionEvent \<Rightarrow> bool" where
  "isItemStarted (ItemStarted t n i) = True"
| "isItemStarted e = False"

fun isItemProgress :: "ExtractionEvent \<Rightarrow> bool" where
  "isItemProgress (ItemProgress t n p) = True"
| "isItemProgress e = False"

fun isItemTransferred :: "ExtractionEvent \<Rightarrow> bool" where
  "isItemTransferred (ItemTransferred t n) = True"
| "isItemTransferred e = False"

fun isCompleted :: "ExtractionEvent \<Rightarrow> bool" where
  "isCompleted (Completed t) = True"
| "isCompleted e = False"




text \<open>
  A site at hazard 45 whose operation stabilizes the volatiles at start, with a
  stabilization of half a second (five ticks).
\<close>

definition stabilizingEngine :: LootingEngine where
  "stabilizingEngine =
     newEngine (\<lambda>_. crate) (\<lambda>_. 99 / 100) (oneNodeSite\<lparr>hazard := Num 45\<rparr>) demoCargo allTools
       (plainOptions\<lparr>autoStabilizeVolatiles := True\<rparr>)
       (DEFAULT_SIM_CONFIG\<lparr>stabilizeTimeSec := 1 / 2\<rparr>)"

text \<open>
  A site with one volatile crate that brings the hazard to 30 in one tick, and a site
  with two volatile crates, the second in poor condition; every random draw is 0, so
  every roll succeeds.
\<close>

definition ammoCrate :: LootNode where
  "ammoCrate =
     crate\<lparr>nodeName := ''Ammo'', tags := [Ammo, Volatile], baseHazardPerSec := 300\<rparr>"

definition fuelDrum :: LootNode where
  "fuelDrum =
     crate\<lparr>nodeId := ''node_2'', nodeName := ''Fuel'', tags := [Fuel, Volatile],
           condition := 20\<rparr>"

definition ammoEngine :: LootingEngine where
  "ammoEngine =
     newEngine (\<lambda>_. ammoCrate) (\<lambda>_. 0) oneNodeSite demoCargo allTools plainOptions
       DEFAULT_SIM_CONFIG"

definition ammoFuelEngine :: LootingEngine where
  "ammoFuelEngine =
     newEngine ((\<lambda>_. ammoCrate)(1 := fuelDrum)) (\<lambda>_. 0) (oneNodeSite\<lparr>nodes := [0, 1]\<rparr>)
       demoCargo allTools plainOptions DEFAULT_SIM_CONFIG"

text \<open>The crate in front of a full cargo hold, in an operation that waits for space.\<close>

definition fullCargo :: CargoState where
  "fullCargo = demoCargo\<lparr>usedMassKg := 3000\<rparr>"

definition waitingEngine :: LootingEngine where
  "waitingEngine =
     newEngine (\<lambda>_. crate) (\<lambda>_. 0) oneNodeSite fullCargo allTools
       (plainOptions\<lparr>waitForSpace := True\<rparr>) DEFAULT_SIM_CONFIG"


definition zeroRateStabilizingEngine :: LootingEngine where
  "zeroRateStabilizingEngine =
     newEngine (\<lambda>_. crate) (\<lambda>_. 99 / 100) (oneNodeSite\<lparr>hazard := Num 45\<rparr>) demoCargo allTools
       (plainOptions\<lparr>autoStabilizeVolatiles := True\<rparr>)
       (DEFAULT_SIM_CONFIG\<lparr>tickRateHz := 0\<rparr>)"

subsection \<open>Evaluation of the numbers\<close>

lemma exponentSearch_bounds:
  "2 powi (- int k) \<le> x \<Longrightarrow> x < 2 powi (int k + 1) \<Longrightarrow>
     2 powi (exponentSearch k x) \<le> x \<and> x < 2 powi (exponentSearch k x + 1)"
proof (induction k arbitrary: x)
  case 0
  then show ?case by simp
next
  case (Suc k)
  have p: "(2::real) powi (int k + 1) = 2 * 2 powi (int k)"
    "(2::real) powi (int (Suc k) + 1) = 4 * 2 powi (int k)"
    "(2::real) powi (- int (Suc k)) = 2 powi (- int k) / 2"
    by (simp_all add: power_int_add power_int_diff power_int_minus field_simps)
  have pos: "(0::real) < 2 powi (- int k)" by simp
  have one: "(2::real) powi (- int k) \<le> 1"
    by (simp add: power_int_minus field_simps)
  have big: "(2::real) \<le> 2 * 2 powi (int k)"
    by simp
  consider "x \<ge> 2" | "x < 1" | "1 \<le> x" "x < 2" by linarith
  then show ?case
  proof cases
    case 1
    have "2 powi (- int k) \<le> x / 2" using 1 one by linarith
    moreover have "x / 2 < 2 powi (int k + 1)" using Suc.prems(2) unfolding p by linarith
    ultimately have "2 powi (exponentSearch k (x / 2)) \<le> x / 2 \<and>
        x / 2 < 2 powi (exponentSearch k (x / 2) + 1)"
      by (rule Suc.IH)
    then show ?thesis
      using 1 by (simp add: power_int_add field_simps)
  next
    case 2
    have "2 powi (- int k) \<le> x * 2" using Suc.prems(1) unfolding p by linarith
    moreover have "x * 2 < 2 powi (int k + 1)" using 2 big unfolding p by linarith
    ultimately have "2 powi (exponentSearch k (x * 2)) \<le> x * 2 \<and>
        x * 2 < 2 powi (exponentSearch k (x * 2) + 1)"
      by (rule Suc.IH)
    then show ?thesis
      using 2 by (simp add: power_int_diff power_int_add field_simps)
  next
    case 3
    then show ?thesis by simp
  qed
qed

lemma exponentSearch_numeral [simp]:
  "exponentSearch (numeral v) x =
     (if x \<ge> 2 then exponentSearch (pred_numeral v) (x / 2) + 1
      else if x < 1 then exponentSearch (pred_numeral v) (x * 2) - 1
      else 0)"
  by (simp add: numeral_eq_Suc)

lemmas number_eval = roundDouble_def binaryExponent_def roundTiesToEven_def Let_def power_int_def
  power_one_over power_divide

lemma roundDouble_examples:
  "roundDouble (1 / 10) = Num (3602879701896397 / 36028797018963968)"
  "roundDouble (2 ^ 53 + 1) = Num (2 ^ 53)"
  "roundDouble (2 ^ 53 + 3) = Num (2 ^ 53 + 4)"
  "roundDouble (- (1 / 3)) = Num (- (6004799503160661 / 18014398509481984))"
  by (simp_all add: number_eval)

subsection \<open>The hazard pass and the engine steps keep their frame\<close>

lemma pickIndex_less: "0 < n \<Longrightarrow> pickIndex (fst (Math_random s)) n < n"
proof -
  assume n: "0 < n"
  let ?r = "frac (randomSource s (randomDrawn s))"
  have "?r * real n < real n"
    using n frac_lt_1 [of "randomSource s (randomDrawn s)"] by simp
  moreover have "0 \<le> ?r * real n"
    by simp
  ultimately show ?thesis
    unfolding pickIndex_def Math_random_def by (simp add: floor_less_iff nat_less_iff)
qed

lemma removeNodeFromSite_exhausted:
  assumes "exhausted (site s) \<longrightarrow> nodes (site s) = []"
  shows "exhausted (site (removeNodeFromSite i s)) \<longleftrightarrow> nodes (site (removeNodeFromSite i s)) = []"
  using assms by (auto simp add: removeNodeFromSite_def Let_def)

lemma firedThresholds_append:
  "firedThresholds (es @ fs) = firedThresholds es @ firedThresholds fs"
  by (induction es rule: firedThresholds.induct) simp_all

lemma hazardFrame_refl: "hazardFrame s s"
  by (simp add: hazardFrame_def)

lemma hazardFrame_trans: "hazardFrame s t \<Longrightarrow> hazardFrame t u \<Longrightarrow> hazardFrame s u"
  by (simp add: hazardFrame_def)

lemma hazardFrame_random: "hazardFrame s (snd (Math_random s))"
  by (simp add: hazardFrame_def Math_random_def)

lemma hazardFrame_damaged: "hazardFrame s (tickHazard_onNodeDamaged n m s)"
  by (simp add: hazardFrame_def tickHazard_onNodeDamaged_def emit_def firedThresholds_append)

lemma hazardFrame_destroyed: "hazardFrame s (tickHazard_onNodeDestroyed n m s)"
  by (simp add: hazardFrame_def tickHazard_onNodeDestroyed_def emit_def firedThresholds_append)

lemma hazardFrame_setCondition:
  "(conditionInRange (store s n) \<Longrightarrow> 0 \<le> c \<and> c \<le> 100) \<Longrightarrow> hazardFrame s (setCondition n c s)"
  by (auto simp add: hazardFrame_def setCondition_def conditionInRange_def)

lemma hazardFrame_setExtractTimeSec: "hazardFrame s (setExtractTimeSec n c s)"
  by (simp add: hazardFrame_def setExtractTimeSec_def conditionInRange_def)

lemma pickRandom_loop_frame:
  "hazardFrame s (snd (pickRandom_loop copy picked count s))"
proof (induction copy picked count s rule: pickRandom_loop.induct)
  case (1 copy picked count s)
  show ?case
  proof (cases "real (length picked) < count \<and> length copy > 0")
    case True
    have "hazardFrame (snd (Math_random s))
            (snd (pickRandom_loop copy picked count s))"
      using "1.IH" [OF True refl] True
      by (simp add: pickRandom_loop.simps [of copy picked count s] Let_def)
    with hazardFrame_random [of s] show ?thesis
      by (rule hazardFrame_trans)
  next
    case False
    then show ?thesis
      by (auto simp add: pickRandom_loop.simps [of copy picked count s] hazardFrame_refl)
  qed
qed

lemma hazardFrame_pickRandom: "hazardFrame s (snd (pickRandom xs count s))"
  by (simp add: pickRandom_def pickRandom_loop_frame)

lemma blastNeighbors_frame:
  "hazardFrame s (blastNeighbors tickHazard_onNodeDamaged tickHazard_onNodeDestroyed ns s)"
proof (induction ns arbitrary: s)
  case Nil
  then show ?case by (simp add: hazardFrame_refl)
next
  case (Cons neighbor rest)
  let ?s1 = "snd (Math_random s)"
  let ?s2 = "setCondition neighbor (max 0 (condition (store ?s1 neighbor) - 25)) ?s1"
  let ?s3 = "tickHazard_onNodeDamaged neighbor (nodeName (store ?s2 neighbor) @ '' damaged by blast.'') ?s2"
  let ?s4 = "if condition (store ?s3 neighbor) \<le> 0
             then tickHazard_onNodeDestroyed neighbor
                    (nodeName (store ?s3 neighbor) @ '' destroyed by blast damage.'') ?s3
             else ?s3"
  have f1: "hazardFrame s ?s1" by (rule hazardFrame_random)
  have f2: "hazardFrame ?s1 ?s2"
    by (rule hazardFrame_setCondition) (auto simp: conditionInRange_def)
  have f3: "hazardFrame ?s2 ?s3" by (rule hazardFrame_damaged)
  have f4: "hazardFrame ?s3 ?s4" by (simp add: hazardFrame_refl hazardFrame_destroyed)
  have f: "hazardFrame s ?s4"
    using f1 f2 f3 f4 by (blast intro: hazardFrame_trans)
  show ?case
  proof (cases "fst (Math_random s) < 1 / 2")
    case True
    have "hazardFrame s (blastNeighbors tickHazard_onNodeDamaged tickHazard_onNodeDestroyed rest ?s4)"
      using f Cons.IH [of ?s4] by (rule hazardFrame_trans)
    with True show ?thesis by (simp add: Let_def)
  next
    case False
    have "hazardFrame s (blastNeighbors tickHazard_onNodeDamaged tickHazard_onNodeDestroyed rest ?s1)"
      using f1 Cons.IH [of ?s1] by (rule hazardFrame_trans)
    with False show ?thesis by (simp add: Let_def)
  qed
qed


lemma volatileLoop_frame:
  "hazardFrame s (volatileLoop tickHazard_onNodeDamaged tickHazard_onNodeDestroyed ns s)"
proof (induction ns arbitrary: s)
  case Nil
  then show ?case by (simp add: hazardFrame_refl)
next
  case (Cons node rest)
  let ?s1 = "snd (Math_random s)"
  let ?s2 = "tickHazard_onNodeDestroyed node
               (nodeName (store ?s1 node) @ '' detonated due to rising hazard.'') ?s1"
  let ?picked = "pickRandom
                   (filter (\<lambda>n. nodeId (store ?s2 n) \<noteq> nodeId (store ?s2 node)) (nodes (site ?s2)))
                   (volatileRadiusCount (config ?s2)) ?s2"
  let ?s4 = "blastNeighbors tickHazard_onNodeDamaged tickHazard_onNodeDestroyed
               (fst ?picked) (snd ?picked)"
  have f1: "hazardFrame s ?s1" by (rule hazardFrame_random)
  have f2: "hazardFrame ?s1 ?s2" by (rule hazardFrame_destroyed)
  have f3: "hazardFrame ?s2 (snd ?picked)" by (rule hazardFrame_pickRandom)
  have f4: "hazardFrame (snd ?picked) ?s4" by (rule blastNeighbors_frame)
  have f: "hazardFrame s ?s4"
    using f1 f2 f3 f4 by (blast intro: hazardFrame_trans)
  have a: "hazardFrame s (volatileLoop tickHazard_onNodeDamaged tickHazard_onNodeDestroyed rest ?s4)"
    using f Cons.IH [of ?s4] by (rule hazardFrame_trans)
  have b: "hazardFrame s (volatileLoop tickHazard_onNodeDamaged tickHazard_onNodeDestroyed rest ?s1)"
    using f1 Cons.IH [of ?s1] by (rule hazardFrame_trans)
  show ?case
    using a b by (simp add: Let_def)
qed

lemma fragileLoop_frame:
  "hazardFrame s (fragileLoop tickHazard_onNodeDamaged ns s)"
proof (induction ns arbitrary: s)
  case Nil
  then show ?case by (simp add: hazardFrame_refl)
next
  case (Cons node rest)
  let ?s1 = "snd (Math_random s)"
  let ?s2 = "setCondition node (max 0 (condition (store ?s1 node) - 15)) ?s1"
  let ?s3 = "tickHazard_onNodeDamaged node
               (nodeName (store ?s2 node) @ '' condition dropped due to instability.'') ?s2"
  have f1: "hazardFrame s ?s1" by (rule hazardFrame_random)
  have f2: "hazardFrame ?s1 ?s2"
    by (rule hazardFrame_setCondition) (auto simp: conditionInRange_def)
  have f3: "hazardFrame ?s2 ?s3" by (rule hazardFrame_damaged)
  have f: "hazardFrame s ?s3"
    using f1 f2 f3 by (blast intro: hazardFrame_trans)
  have a: "hazardFrame s (fragileLoop tickHazard_onNodeDamaged rest ?s3)"
    using f Cons.IH [of ?s3] by (rule hazardFrame_trans)
  have b: "hazardFrame s (fragileLoop tickHazard_onNodeDamaged rest ?s1)"
    using f1 Cons.IH [of ?s1] by (rule hazardFrame_trans)
  show ?case
    using a b Cons.IH [of s] by (simp add: Let_def)
qed

lemma stallLoop_frame:
  "hazardFrame s (stallLoop tickHazard_onNodeDamaged ns s)"
proof (induction ns arbitrary: s)
  case Nil
  then show ?case by (simp add: hazardFrame_refl)
next
  case (Cons node rest)
  let ?s1 = "snd (Math_random s)"
  let ?s2 = "setExtractTimeSec node (extractTimeSec (store ?s1 node) + 3) ?s1"
  let ?s3 = "tickHazard_onNodeDamaged node
               (nodeName (store ?s2 node) @ '' encountered a stall; extraction slowed.'') ?s2"
  have f1: "hazardFrame s ?s1" by (rule hazardFrame_random)
  have f2: "hazardFrame ?s1 ?s2" by (rule hazardFrame_setExtractTimeSec)
  have f3: "hazardFrame ?s2 ?s3" by (rule hazardFrame_damaged)
  have f: "hazardFrame s ?s3"
    using f1 f2 f3 by (blast intro: hazardFrame_trans)
  have a: "hazardFrame s (stallLoop tickHazard_onNodeDamaged rest ?s3)"
    using f Cons.IH [of ?s3] by (rule hazardFrame_trans)
  have b: "hazardFrame s (stallLoop tickHazard_onNodeDamaged rest ?s1)"
    using f1 Cons.IH [of ?s1] by (rule hazardFrame_trans)
  show ?case
    using a b by (simp add: Let_def)
qed

lemma rollThresholdEffects_frame:
  "hazardFrame s (rollThresholdEffects tickHazard_onNodeDamaged tickHazard_onNodeDestroyed s)"
  unfolding rollThresholdEffects_def Let_def
  by (blast intro: hazardFrame_trans volatileLoop_frame fragileLoop_frame stallLoop_frame)

lemma newlyFired_props:
  "distinct (newlyFired h trig ts) \<and> set (newlyFired h trig ts) \<inter> trig = {} \<and>
   subseq (newlyFired h trig ts) ts \<and> (\<forall>t \<in> set (newlyFired h trig ts). num_ge h (Num t))"
proof (induction ts arbitrary: trig)
  case Nil
  then show ?case by simp
next
  case (Cons t ts)
  show ?case
    using Cons.IH [of trig] Cons.IH [of "insert t trig"] by auto
qed

lemma checkThresholdLoop_frame:
  "config s' = config s \<and> options s' = options s \<and>
   hazard (site s') = hazard (site s) \<and>
   (\<forall>r. conditionInRange (store s r) \<longrightarrow> conditionInRange (store s' r)) \<and>
   firedThresholds (emitted s') =
     firedThresholds (emitted s) @
       newlyFired (hazard (site s)) (triggeredThresholds (hazardState s)) ts \<and>
   triggeredThresholds (hazardState s') =
     triggeredThresholds (hazardState s) \<union>
       set (newlyFired (hazard (site s)) (triggeredThresholds (hazardState s)) ts)"
  if "s' = checkThresholdLoop tickHazard_onNodeDamaged tickHazard_onNodeDestroyed
             tickHazard_onThreshold ts s"
  using that
proof (induction ts arbitrary: s s')
  case Nil
  then show ?case by simp
next
  case (Cons t ts)
  show ?case
  proof (cases "num_ge (hazard (site s)) (Num t) \<and> t \<notin> triggeredThresholds (hazardState s)")
    case False
    then show ?thesis
      using Cons.IH [of s' s] Cons.prems by auto
  next
    case True
    let ?s1 = "s\<lparr>hazardState := (hazardState s)\<lparr>triggeredThresholds :=
                       insert t (triggeredThresholds (hazardState s))\<rparr>\<rparr>"
    let ?s2 = "tickHazard_onThreshold t ?s1"
    let ?s3 = "rollThresholdEffects tickHazard_onNodeDamaged tickHazard_onNodeDestroyed ?s2"
    have s': "s' = checkThresholdLoop tickHazard_onNodeDamaged tickHazard_onNodeDestroyed
                     tickHazard_onThreshold ts ?s3"
      using Cons.prems True by (simp add: Let_def)
    have fr: "hazardFrame ?s2 ?s3" by (rule rollThresholdEffects_frame)
    have s2: "config ?s2 = config s" "options ?s2 = options s" "site ?s2 = site s"
      "store ?s2 = store s"
      "firedThresholds (emitted ?s2) = firedThresholds (emitted s) @ [t]"
      "triggeredThresholds (hazardState ?s2) = insert t (triggeredThresholds (hazardState s))"
      by (simp_all add: tickHazard_onThreshold_def emit_def firedThresholds_append)
    have s3: "config ?s3 = config s" "options ?s3 = options s"
      "hazard (site ?s3) = hazard (site s)"
      "firedThresholds (emitted ?s3) = firedThresholds (emitted s) @ [t]"
      "triggeredThresholds (hazardState ?s3) = insert t (triggeredThresholds (hazardState s))"
      "\<forall>r. conditionInRange (store s r) \<longrightarrow> conditionInRange (store ?s3 r)"
      using fr s2 unfolding hazardFrame_def by simp_all
    show ?thesis
      using Cons.IH [OF s'] s3 True by auto
  qed
qed

lemma enqueue_frame:
  "enqueue ns s = s\<lparr>queue := queue s @ filter (\<lambda>n. inSite n s) ns\<rparr>"
proof (induction ns arbitrary: s)
  case Nil
  then show ?case by simp
next
  case (Cons n ns)
  have same: "\<And>m q. inSite m (s\<lparr>queue := q\<rparr>) = inSite m s"
    by (simp add: inSite_def)
  show ?case
    by (simp add: Cons.IH same)
qed

lemma stepRel_refl: "stepRel s s"
  by (simp add: stepRel_def)

lemma stepRel_trans: "stepRel s t \<Longrightarrow> stepRel t u \<Longrightarrow> stepRel s u"
  unfolding stepRel_def by (intro conjI) (simp_all, blast)

lemma hazardFrame_stepRel: "hazardFrame s s' \<Longrightarrow> stepRel s s'"
  by (simp add: hazardFrame_def stepRel_def thresholdInv_def hazardInRange_def)

lemma clamp_in_range: "mn \<le> mx \<Longrightarrow> mn \<le> clamp v mn mx \<and> clamp v mn mx \<le> mx"
  by (simp add: clamp_def)

lemma clamp_id: "mn \<le> v \<Longrightarrow> v \<le> mx \<Longrightarrow> clamp v mn mx = v"
  by (simp add: clamp_def)

lemma roundDouble_not_NaN: "roundDouble x \<noteq> NaN"
  by (simp add: roundDouble_def Let_def)

lemma num_mul_finite: "isFinite dt \<Longrightarrow> num_mul (Num a) dt \<noteq> NaN"
  by (cases dt) (simp_all add: roundDouble_not_NaN)

lemma num_add_not_NaN: "a \<noteq> NaN \<Longrightarrow> num_add (Num h) a \<noteq> NaN"
  by (cases a) (simp_all add: roundDouble_not_NaN)

lemma clampNumber_in_range:
  "mn \<le> mx \<Longrightarrow> v \<noteq> NaN \<Longrightarrow>
     num_ge (clampNumber v (Num mn) (Num mx)) (Num mn) \<and>
     num_ge (Num mx) (clampNumber v (Num mn) (Num mx))"
  by (cases v) (simp_all add: clampNumber_def)

lemma clampNumber_id:
  "mn \<le> v \<Longrightarrow> v \<le> mx \<Longrightarrow> clampNumber (Num v) (Num mn) (Num mx) = Num v"
  by (simp add: clampNumber_def)

lemma hazardInRange_Num:
  "hazardInRange s \<Longrightarrow>
     \<exists>h. hazard (site s) = Num h \<and> hazardClampMin (config s) \<le> h \<and> h \<le> hazardClampMax (config s)"
  by (cases "hazard (site s)") (simp_all add: hazardInRange_def)

lemma addHazard_hazardInRange:
  assumes "hazardClampMin (config s) \<le> hazardClampMax (config s)" "hazardInRange s" "a \<noteq> NaN"
  shows "hazardInRange (addHazard a s)"
proof -
  obtain h where h: "hazard (site s) = Num h"
    using hazardInRange_Num [OF assms(2)] by blast
  have "num_add (hazard (site s)) a \<noteq> NaN"
    unfolding h using assms(3) by (rule num_add_not_NaN)
  from clampNumber_in_range [OF assms(1) this] show ?thesis
    by (simp add: hazardInRange_def addHazard_def)
qed

lemma addHazard_stepRel: "a \<noteq> NaN \<Longrightarrow> stepRel s (addHazard a s)"
  using addHazard_hazardInRange [of s a]
  by (simp add: stepRel_def) (simp add: addHazard_def thresholdInv_def)

lemma checkThresholdEvents_stepRel:
  "stepRel s (checkThresholdEvents tickHazard_onNodeDamaged tickHazard_onNodeDestroyed
                tickHazard_onThreshold s)"
proof -
  let ?s' = "checkThresholdLoop tickHazard_onNodeDamaged tickHazard_onNodeDestroyed
               tickHazard_onThreshold (hazardThresholds (config s)) s"
  let ?nf = "newlyFired (hazard (site s)) (triggeredThresholds (hazardState s))
               (hazardThresholds (config s))"
  note fr = checkThresholdLoop_frame [OF refl, of "hazardThresholds (config s)" s]
  note np = newlyFired_props [of "hazard (site s)" "triggeredThresholds (hazardState s)"
      "hazardThresholds (config s)"]
  have inv: "thresholdInv ?s'" if "thresholdInv s"
    using that fr np unfolding thresholdInv_def by auto
  show ?thesis
    unfolding checkThresholdEvents_def stepRel_def
    using fr inv by (simp add: hazardInRange_def)
qed

lemma tickHazard_stepRel:
  assumes "isFinite (tickLength (config s)) \<longrightarrow> isFinite dt"
  shows "stepRel s (tickHazard h dt s)"
proof (cases "isFinite dt")
  case True
  show ?thesis
    unfolding tickHazard_def Let_def
    by (rule stepRel_trans [OF addHazard_stepRel [OF num_mul_finite [OF True]]
          checkThresholdEvents_stepRel])
next
  case False
  let ?a = "num_mul (Num (h * hazardMultiplier (STANCE_MODIFIERS (stance (options s))))) dt"
  have "stepRel s (addHazard ?a s)"
    using False assms by (simp add: stepRel_def) (simp add: addHazard_def thresholdInv_def)
  then show ?thesis
    unfolding tickHazard_def Let_def
    by (rule stepRel_trans [OF _ checkThresholdEvents_stepRel])
qed

lemma tickHazard_hazard:
  "hazard (site (tickHazard h dt s)) =
     clampNumber (num_add (hazard (site s))
         (num_mul (Num (h * hazardMultiplier (STANCE_MODIFIERS (stance (options s))))) dt))
       (Num (hazardClampMin (config s))) (Num (hazardClampMax (config s)))"
  unfolding tickHazard_def Let_def checkThresholdEvents_def
  using checkThresholdLoop_frame [OF refl]
  by (simp add: addHazard_def)

lemma startNextNode_loop_frame: "hazardFrame s (startNextNode_loop s)"
proof (induction s rule: startNextNode_loop.induct)
  case (1 s)
  show ?case
  proof (cases "queue s")
    case Nil
    then show ?thesis
      by (simp add: startNextNode_loop.simps [of s] hazardFrame_def emit_def
          firedThresholds_append)
  next
    case (Cons node rest)
    let ?can = "canExtract node s"
    have a: "hazardFrame s (startNextNode_loop (s\<lparr>queue := rest\<rparr>))" if "\<not> inSite node s"
      using "1.IH"(1) [OF Cons that] by (simp add: hazardFrame_def)
    have b: "hazardFrame s (startNextNode_loop
               (emit (ItemSkipped (timeSec s) node (reasonOrSkipped ?can)) (s\<lparr>queue := rest\<rparr>)))"
      if "\<not> \<not> inSite node s" "\<not> ok ?can"
         "\<not> waitForSpace (options s) \<or> reason ?can \<noteq> Some ''Insufficient cargo space''"
      using "1.IH"(2) [OF Cons that(1) refl that(2) that(3)]
      by (simp add: hazardFrame_def emit_def firedThresholds_append)
    show ?thesis
      using a b Cons
      by (auto simp add: startNextNode_loop.simps [of s] Let_def hazardFrame_refl)
         (simp_all add: hazardFrame_def emit_def firedThresholds_append)
  qed
qed

lemma startNextNode_frame: "hazardFrame s (startNextNode s)"
proof -
  let ?s0 = "s\<lparr>currentNode := None, currentNodeProgressSec := Num 0, currentNodeTotalSec := 0\<rparr>"
  have "hazardFrame s ?s0" by (simp add: hazardFrame_def)
  then show ?thesis
    unfolding startNextNode_def
    using startNextNode_loop_frame [of ?s0] by (rule hazardFrame_trans)
qed

lemma runStep_finish_frame: "hazardFrame s (runStep_finish node s)"
  using clamp_in_range [of 0 100]
  by (simp add: runStep_finish_def Let_def hazardFrame_def emit_def setCondition_def
      consumeCargo_def removeNodeFromSite_def firedThresholds_append conditionInRange_def)

lemma runStep_progress_stepRel:
  assumes "isFinite (tickLength (config s)) \<longrightarrow> isFinite dt"
  shows "stepRel s (runStep_progress dt node s)"
proof -
  let ?s3 = "tickHazard (baseHazardPerSec (store s node)) dt s"
  let ?s4 = "?s3\<lparr>currentNodeProgressSec := num_add (currentNodeProgressSec ?s3) dt\<rparr>"
  let ?p = "clampNumber (num_div (currentNodeProgressSec ?s4) (Num (currentNodeTotalSec ?s4)))
              (Num 0) (Num 1)"
  let ?s5 = "emit (ItemProgress (timeSec ?s4) node ?p) ?s4"
  have f3: "stepRel s ?s3" using assms by (rule tickHazard_stepRel)
  have f5: "hazardFrame ?s3 ?s5"
    by (simp add: hazardFrame_def emit_def firedThresholds_append)
  have f6: "hazardFrame ?s3 (runStep_finish node ?s5)"
    using f5 runStep_finish_frame by (rule hazardFrame_trans)
  have "stepRel s ?s5" "stepRel s (runStep_finish node ?s5)"
    using f3 f5 f6 by (blast intro: stepRel_trans hazardFrame_stepRel)+
  then show ?thesis
    by (simp add: runStep_progress_def Let_def)
qed

lemma runStep_stepRel: "stepRel s (runStep s)"
proof (cases "isRunning s")
  case False
  then show ?thesis by (simp add: runStep_def stepRel_refl)
next
  case True
  let ?dt = "num_div (Num 1) (Num (tickRateHz (config s)))"
  let ?s1 = "s\<lparr>timeSec := num_add (timeSec s) ?dt\<rparr>"
  have f1: "hazardFrame s ?s1" by (simp add: hazardFrame_def)
  show ?thesis
  proof (cases "currentNode s")
    case (Some node)
    have "stepRel ?s1 (runStep_progress ?dt node ?s1)"
      by (rule runStep_progress_stepRel) (simp del: num_div.simps add: tickLength_def)
    with hazardFrame_stepRel [OF f1]
    have "stepRel s (runStep_progress ?dt node ?s1)"
      by (rule stepRel_trans)
    with True Some show ?thesis by (simp del: num_div.simps add: runStep_def Let_def)
  next
    case None
    let ?s2 = "startNextNode ?s1"
    have h2: "hazardFrame s ?s2"
      using f1 startNextNode_frame by (rule hazardFrame_trans)
    then have f2: "stepRel s ?s2" by (rule hazardFrame_stepRel)
    have c2: "config ?s2 = config s" using h2 by (simp add: hazardFrame_def)
    have "stepRel ?s2 (runStep_progress ?dt node ?s2)" for node
      by (rule runStep_progress_stepRel) (simp del: num_div.simps add: tickLength_def c2)
    with f2 have f3: "stepRel s (runStep_progress ?dt node ?s2)" for node
      by (rule stepRel_trans)
    show ?thesis
      using True None f2 f3
      by (simp del: num_div.simps add: runStep_def Let_def split: option.split)
  qed
qed

lemma stabilizeLoop_stepRel: "stepRel s (stabilizeLoop n s)"
proof (induction n arbitrary: s)
  case 0
  then show ?case by (simp add: stepRel_refl)
next
  case (Suc n)
  have "stepRel s (tickHazard 0 (num_div (Num 1) (Num (tickRateHz (config s)))) s)"
    by (rule tickHazard_stepRel) (simp del: num_div.simps add: tickLength_def)
  then show ?case
    using Suc.IH by (simp del: num_div.simps, rule stepRel_trans)
qed

lemma start_stepRel: "stepRel s (start s)"
proof -
  let ?s0 = "s\<lparr>isRunning := True\<rparr>"
  let ?s1 = "?s0\<lparr>site := (site ?s0)\<lparr>stabilizedVolatiles := True\<rparr>\<rparr>"
  let ?s2 = "emit (StabilizedVolatiles (timeSec ?s1)) ?s1"
  have "hazardFrame s ?s0" "hazardFrame s ?s2"
    by (simp_all add: hazardFrame_def emit_def firedThresholds_append)
  then have "stepRel s ?s0" "stepRel s ?s2"
    by (simp_all add: hazardFrame_stepRel)
  moreover have "stepRel s (stabilizeLoop n ?s2)" for n
    using \<open>stepRel s ?s2\<close> stabilizeLoop_stepRel by (rule stepRel_trans)
  ultimately show ?thesis
    by (simp add: start_def maybeStabilize_def Let_def stepRel_refl)
qed

lemma hazardFrame_queue: "hazardFrame s (s\<lparr>queue := q\<rparr>)"
  by (simp add: hazardFrame_def)

lemma reorderQueue_frame: "hazardFrame s (reorderQueue i j s)"
proof (cases "i < 0 \<or> i \<ge> real (length (queue s))")
  case True
  then show ?thesis
    by (simp only: reorderQueue_def if_True hazardFrame_refl)
next
  case False
  show ?thesis
    by (simp only: reorderQueue_def False if_False Let_def hazardFrame_queue)
qed

lemma applyOp_stepRel: "stepRel s (applyOp opn s)"
proof (cases opn)
  case (OpEnqueue ns)
  have "hazardFrame s (enqueue ns s)"
    by (subst enqueue_frame) (simp add: hazardFrame_def)
  with OpEnqueue show ?thesis by (simp add: hazardFrame_stepRel)
next
  case (OpReorderQueue i j)
  with reorderQueue_frame show ?thesis by (simp add: hazardFrame_stepRel)
next
  case OpClearQueue
  have "hazardFrame s (clearQueue s)"
    by (simp add: clearQueue_def hazardFrame_def)
  with OpClearQueue show ?thesis by (simp add: hazardFrame_stepRel)
next
  case OpStart
  then show ?thesis by (simp add: start_stepRel)
next
  case OpRunStep
  then show ?thesis by (simp add: runStep_stepRel)
next
  case OpAbort
  have "hazardFrame s (abort s)"
    by (simp add: abort_def hazardFrame_def emit_def firedThresholds_append)
  with OpAbort show ?thesis by (simp add: hazardFrame_stepRel)
qed

lemma applyOps_stepRel: "stepRel s (applyOps ops s)"
proof (induction ops arbitrary: s)
  case Nil
  then show ?case by (simp add: stepRel_refl)
next
  case (Cons opn ops)
  show ?case
    using applyOp_stepRel Cons.IH by (simp, rule stepRel_trans)
qed

subsection \<open>The claims\<close>

lemma enqueue_queue:
  "queue (enqueue ns s) = queue s @ filter (\<lambda>n. inSite n s) ns"
  by (subst enqueue_frame) simp

text \<open>
  Claim C10.  \<open>enqueue\<close> does not deduplicate: the queue grows by the entries of the
  argument that are present in the site, in order and once per occurrence, so its length
  grows by their number; enqueueing a node that is already queued and still present adds
  a second entry for it.
\<close>

theorem enqueue_does_not_deduplicate:
  "getQueue (enqueue ns s) = getQueue s @ filter (\<lambda>n. inSite n s) ns \<and>
   length (getQueue (enqueue ns s)) =
     length (getQueue s) + length (filter (\<lambda>n. inSite n s) ns) \<and>
   (inSite n s \<and> n \<in> set (getQueue s) \<longrightarrow>
      getQueue (enqueue [n] s) = getQueue s @ [n] \<and>
      count_list (getQueue (enqueue [n] s)) n = Suc (count_list (getQueue s) n))"
  by (simp add: getQueue_def enqueue_queue)

theorem enqueue_does_not_deduplicate_witness:
  "inSite 0 (crateEngine\<lparr>queue := [0]\<rparr>) \<and> 0 \<in> set (getQueue (crateEngine\<lparr>queue := [0]\<rparr>)) \<and>
   getQueue (enqueue [0] (crateEngine\<lparr>queue := [0]\<rparr>)) = [0, 0] \<and>
   count_list (getQueue (enqueue [0] (crateEngine\<lparr>queue := [0]\<rparr>))) 0 = 2 \<and>
   getQueue (enqueue [0, 7, 0] (crateEngine\<lparr>queue := [0]\<rparr>)) = [0, 0, 7, 0]"
proof -
  let ?e = "crateEngine\<lparr>queue := [0]\<rparr>"
  have p: "inSite n ?e" for n
    by (simp add: inSite_def crateEngine_def newEngine_def oneNodeSite_def)
  have q: "getQueue ?e = [0]"
    by (simp add: getQueue_def)
  note a = enqueue_does_not_deduplicate [of "[0]" ?e 0]
  note b = enqueue_does_not_deduplicate [of "[0, 7, 0]" ?e 0]
  have "getQueue (enqueue [0] ?e) = [0, 0]"
    using a p q by (simp del: enqueue.simps)
  moreover have "count_list (getQueue (enqueue [0] ?e)) 0 = 2"
    using a p q by (simp del: enqueue.simps)
  moreover have "getQueue (enqueue [0, 7, 0] ?e) = [0, 0, 7, 0]"
    using b p q by (simp del: enqueue.simps)
  ultimately show ?thesis
    using p q by (simp del: enqueue.simps)
qed

lemma autoQueue_scan_bounds:
  "mass \<le> maxMassKg crg \<Longrightarrow> vol \<le> maxVolumeM3 crg \<Longrightarrow>
   length result \<le> n \<Longrightarrow>
   mass = m0 + sum_list (map massKg result) \<Longrightarrow>
   vol = v0 + sum_list (map volumeM3 result) \<Longrightarrow>
   length (autoQueue_scan ranked crg (real n) result mass vol) \<le> n \<and>
   m0 + sum_list (map massKg (autoQueue_scan ranked crg (real n) result mass vol)) \<le> maxMassKg crg \<and>
   v0 + sum_list (map volumeM3 (autoQueue_scan ranked crg (real n) result mass vol)) \<le> maxVolumeM3 crg"
proof (induction ranked arbitrary: result mass vol)
  case Nil
  then show ?case by simp
next
  case (Cons node rest)
  show ?case
  proof (cases "real (length result) \<ge> real n")
    case True
    with Cons.prems show ?thesis by simp
  next
    case full: False
    show ?thesis
    proof (cases "mass + massKg node \<le> maxMassKg crg \<and> vol + volumeM3 node \<le> maxVolumeM3 crg")
      case True
      have "length (result @ [node]) \<le> n" using full by simp
      moreover have "mass + massKg node = m0 + sum_list (map massKg (result @ [node]))"
        using Cons.prems by simp
      moreover have "vol + volumeM3 node = v0 + sum_list (map volumeM3 (result @ [node]))"
        using Cons.prems by simp
      ultimately show ?thesis
        using Cons.IH [of "mass + massKg node" "vol + volumeM3 node" "result @ [node]"] True full
        by simp
    next
      case False
      then show ?thesis
        using Cons.IH [of mass vol result] Cons.prems full by auto
    qed
  qed
qed

text \<open>
  Claim C7, amended.  When the cargo's usage is within its maxima and \<open>maxItems\<close> is a
  natural number, \<open>computeAutoQueue\<close> returns at most \<open>maxItems\<close> nodes and the usage plus
  their total mass and volume stays within the maxima; and a candidate that would
  overflow the capacity is passed over while the scan goes on with the rest of the
  ranking (so a later node can still be accepted, as the light crate after the heavy
  turret in the witness).
\<close>

theorem computeAutoQueue_within_capacity:
  assumes "usedMassKg crg \<le> maxMassKg crg" and "usedVolumeM3 crg \<le> maxVolumeM3 crg"
  shows "length (computeAutoQueue ns crg pr (real n)) \<le> n \<and>
    usedMassKg crg + sum_list (map massKg (computeAutoQueue ns crg pr (real n))) \<le> maxMassKg crg \<and>
    usedVolumeM3 crg + sum_list (map volumeM3 (computeAutoQueue ns crg pr (real n)))
      \<le> maxVolumeM3 crg \<and>
    (real (length result) < maxItems \<and>
     \<not> (mass + massKg node \<le> maxMassKg crg \<and> vol + volumeM3 node \<le> maxVolumeM3 crg) \<longrightarrow>
       autoQueue_scan (node # rest) crg maxItems result mass vol =
       autoQueue_scan rest crg maxItems result mass vol)"
proof -
  have "length (computeAutoQueue ns crg pr (real n)) \<le> n \<and>
    usedMassKg crg + sum_list (map massKg (computeAutoQueue ns crg pr (real n))) \<le> maxMassKg crg \<and>
    usedVolumeM3 crg + sum_list (map volumeM3 (computeAutoQueue ns crg pr (real n)))
      \<le> maxVolumeM3 crg"
    unfolding computeAutoQueue_def
    by (rule autoQueue_scan_bounds) (use assms in simp_all)
  moreover have "real (length result) < maxItems \<and>
     \<not> (mass + massKg node \<le> maxMassKg crg \<and> vol + volumeM3 node \<le> maxVolumeM3 crg) \<longrightarrow>
       autoQueue_scan (node # rest) crg maxItems result mass vol =
       autoQueue_scan rest crg maxItems result mass vol"
    by auto
  ultimately show ?thesis by blast
qed

lemma ranked_example: "autoQueue_ranked [crate, heavyNode] noPriorities = [heavyNode, crate]"
  by (simp add: autoQueue_ranked_def noPriorities_def crate_def heavyNode_def
      weightedValuePerKg_def)

theorem computeAutoQueue_within_capacity_witness:
  "usedMassKg demoCargo \<le> maxMassKg demoCargo \<and>
   usedVolumeM3 demoCargo \<le> maxVolumeM3 demoCargo \<and>
   autoQueue_ranked [crate, heavyNode] noPriorities = [heavyNode, crate] \<and>
   computeAutoQueue [crate, heavyNode] demoCargo noPriorities (real 20) = [crate] \<and>
   length (computeAutoQueue [crate, heavyNode] demoCargo noPriorities (real 20)) \<le> 20 \<and>
   usedMassKg demoCargo +
     sum_list (map massKg (computeAutoQueue [crate, heavyNode] demoCargo noPriorities (real 20)))
     \<le> maxMassKg demoCargo \<and>
   usedVolumeM3 demoCargo +
     sum_list (map volumeM3 (computeAutoQueue [crate, heavyNode] demoCargo noPriorities (real 20)))
     \<le> maxVolumeM3 demoCargo"
proof -
  have c: "usedMassKg demoCargo \<le> maxMassKg demoCargo"
    "usedVolumeM3 demoCargo \<le> maxVolumeM3 demoCargo"
    by (simp_all add: demoCargo_def)
  note t = computeAutoQueue_within_capacity [OF c,
      of "[crate, heavyNode]" noPriorities 20 "[]" 20 0 heavyNode 0 "[crate]"]
  have skip: "autoQueue_scan [heavyNode, crate] demoCargo 20 [] 0 0 =
              autoQueue_scan [crate] demoCargo 20 [] 0 0"
    using t by (simp add: demoCargo_def heavyNode_def crate_def del: autoQueue_scan.simps)
  have "computeAutoQueue [crate, heavyNode] demoCargo noPriorities (real 20) = [crate]"
    unfolding computeAutoQueue_def ranked_example
    using skip by (simp add: demoCargo_def crate_def)
  with t c ranked_example show ?thesis by simp
qed

text \<open>
  Claim C7 as stated fails for a cargo that is over capacity before the call (nothing is
  picked and the usage is above the maximum), and for a fractional \<open>maxItems\<close> (one node
  is picked for \<open>maxItems = 0.5\<close>).
\<close>

theorem computeAutoQueue_counterexample:
  "\<not> (usedMassKg overfullCargo +
        sum_list (map massKg (computeAutoQueue [] overfullCargo noPriorities 20))
        \<le> maxMassKg overfullCargo) \<and>
   \<not> (real (length (computeAutoQueue [crate] demoCargo noPriorities (1 / 2))) \<le> 1 / 2)"
  by (simp add: computeAutoQueue_def autoQueue_ranked_def noPriorities_def overfullCargo_def
      demoCargo_def crate_def weightedValuePerKg_def)




text \<open>
  Claim C6.  A node whose condition is within [0, 100] has its condition within [0, 100]
  after any sequence of engine operations; the transfer clamps the condition into
  [0, 100] for every stance's delta, and the blast damage (25) and the fragile damage
  (15) floor it at 0.
\<close>

theorem condition_stays_in_range:
  "(conditionInRange (store s r) \<longrightarrow> conditionInRange (store (applyOps ops s) r)) \<and>
   (0 \<le> clamp (c + conditionDelta (STANCE_MODIFIERS st)) 0 100 \<and>
    clamp (c + conditionDelta (STANCE_MODIFIERS st)) 0 100 \<le> 100) \<and>
   (0 \<le> c \<and> c \<le> 100 \<longrightarrow>
      0 \<le> max 0 (c - 25) \<and> max 0 (c - 25) \<le> 100 \<and>
      0 \<le> max 0 (c - 15) \<and> max 0 (c - 15) \<le> 100)"
  using applyOps_stepRel [of s ops]
  by (simp add: stepRel_def clamp_def)

theorem condition_stays_in_range_witness:
  "conditionInRange (store crateEngine 0) \<and>
   conditionInRange
     (store (applyOps [OpEnqueue [0], OpStart, OpRunStep, OpRunStep] crateEngine) 0) \<and>
   clamp (95 + conditionDelta (STANCE_MODIFIERS Careful)) 0 100 = 100 \<and>
   max 0 (20 - 25) = (0 :: real)"
proof -
  have h: "conditionInRange (store crateEngine 0)"
    by (simp add: conditionInRange_def crateEngine_def newEngine_def crate_def)
  from condition_stays_in_range [of crateEngine 0
      "[OpEnqueue [0], OpStart, OpRunStep, OpRunStep]" 95 Careful] h
  show ?thesis by (simp add: clamp_def)
qed




lemma tickHazard_fired:
  "firedThresholds (emitted (tickHazard h dt s)) =
     firedThresholds (emitted s) @
       newlyFired (hazard (site (tickHazard h dt s))) (triggeredThresholds (hazardState s))
         (hazardThresholds (config s))"
proof -
  let ?s1 = "addHazard
     (num_mul (Num (h * hazardMultiplier (STANCE_MODIFIERS (stance (options s))))) dt) s"
  have s1: "emitted ?s1 = emitted s" "hazardState ?s1 = hazardState s" "config ?s1 = config s"
    by (simp_all add: addHazard_def)
  from checkThresholdLoop_frame [OF refl, of "hazardThresholds (config s)" ?s1] s1
  show ?thesis
    by (simp add: tickHazard_def Let_def checkThresholdEvents_def)
qed








lemma tickHazard_config: "config (tickHazard h dt s) = config s"
  unfolding tickHazard_def Let_def checkThresholdEvents_def
  using checkThresholdLoop_frame [OF refl]
  by (simp add: addHazard_def)

lemma num_mul_zero: "isFinite dt \<Longrightarrow> num_mul (Num 0) dt = Num 0"
  by (cases dt) (simp_all add: roundDouble_def)

lemma tickHazard_zero:
  assumes "hazardInRange s" and "isFinite dt" and "isNumber (hazard (site s))"
  shows "hazard (site (tickHazard 0 dt s)) = hazard (site s)"
proof -
  obtain h where h: "hazard (site s) = Num h" "hazardClampMin (config s) \<le> h"
    "h \<le> hazardClampMax (config s)"
    using hazardInRange_Num [OF assms(1)] by blast
  have "num_add (Num h) (Num 0) = Num h"
    using assms(3) by (simp add: h isDouble_def)
  then show ?thesis
    by (simp add: tickHazard_hazard num_mul_zero [OF assms(2)] h clampNumber_id)
qed

lemma stabilizeLoop_hazard:
  "hazardInRange s \<Longrightarrow> isFinite (tickLength (config s)) \<Longrightarrow> isNumber (hazard (site s)) \<Longrightarrow>
   hazard (site (stabilizeLoop n s)) = hazard (site s) \<and>
   (\<exists>fs. firedThresholds (emitted (stabilizeLoop n s)) = firedThresholds (emitted s) @ fs \<and>
         (\<forall>t \<in> set fs. num_ge (hazard (site s)) (Num t)))"
proof (induction n arbitrary: s)
  case 0
  then show ?case by simp
next
  case (Suc n)
  let ?s1 = "tickHazard 0 (tickLength (config s)) s"
  have h1: "hazard (site ?s1) = hazard (site s)"
    using Suc.prems by (rule tickHazard_zero)
  have r1: "hazardInRange ?s1" "isFinite (tickLength (config ?s1))" "isNumber (hazard (site ?s1))"
    using Suc.prems h1 by (simp_all add: hazardInRange_def tickHazard_config)
  from Suc.IH [OF r1] obtain fs where
    fs: "hazard (site (stabilizeLoop n ?s1)) = hazard (site ?s1)"
      "firedThresholds (emitted (stabilizeLoop n ?s1)) = firedThresholds (emitted ?s1) @ fs"
      "\<forall>t \<in> set fs. num_ge (hazard (site ?s1)) (Num t)"
    by blast
  let ?nf = "newlyFired (hazard (site ?s1)) (triggeredThresholds (hazardState s))
               (hazardThresholds (config s))"
  have f1: "firedThresholds (emitted ?s1) = firedThresholds (emitted s) @ ?nf"
    by (rule tickHazard_fired)
  have "\<forall>t \<in> set (?nf @ fs). num_ge (hazard (site s)) (Num t)"
    using fs(3) h1 newlyFired_props [of "hazard (site ?s1)"] by auto
  moreover have "firedThresholds (emitted (stabilizeLoop (Suc n) s)) =
      firedThresholds (emitted s) @ (?nf @ fs)"
    using fs(2) f1 by (simp add: tickLength_def del: num_div.simps)
  ultimately show ?case
    using fs(1) h1 by (simp add: tickLength_def del: append_assoc num_div.simps)
qed

text \<open>
  Claim C9, amended.  For a site whose hazard is a number within the clamp range, and a
  tick length \<open>1 / tickRateHz\<close> that is finite, \<open>start\<close> leaves the hazard as it is: each
  stabilization tick adds \<open>0 * dt = 0\<close>; and every threshold that \<open>start\<close> fires is one
  the hazard had already reached.
\<close>

theorem start_leaves_hazard_unchanged:
  assumes "hazardInRange s" and "isFinite (tickLength (config s))"
    and "isNumber (hazard (site s))"
  shows "hazard (site (start s)) = hazard (site s) \<and>
         num_mul (Num (0 * hazardMultiplier (STANCE_MODIFIERS (stance (options s)))))
           (tickLength (config s)) = Num 0 \<and>
         addHazard (Num 0) s = s \<and>
         (\<exists>fs. firedThresholds (emitted (start s)) = firedThresholds (emitted s) @ fs \<and>
               (\<forall>t \<in> set fs. num_ge (hazard (site s)) (Num t)))"
proof -
  obtain h where h: "hazard (site s) = Num h" "hazardClampMin (config s) \<le> h"
    "h \<le> hazardClampMax (config s)"
    using hazardInRange_Num [OF assms(1)] by blast
  have "num_add (Num h) (Num 0) = Num h"
    using assms(3) by (simp add: h isDouble_def)
  then have "hazard (site (addHazard (Num 0) s)) = hazard (site s)"
    by (simp add: addHazard_def h clampNumber_id)
  then have z: "addHazard (Num 0) s = s"
    by (simp add: addHazard_def)
  have m: "num_mul (Num (0 * hazardMultiplier (STANCE_MODIFIERS (stance (options s)))))
             (tickLength (config s)) = Num 0"
    using num_mul_zero [OF assms(2)] by simp
  show ?thesis
  proof (cases "\<not> isRunning s \<and> \<not> stabilizedVolatiles (site s) \<and> autoStabilizeVolatiles (options s)")
    case False
    have "hazard (site (start s)) = hazard (site s)"
      "firedThresholds (emitted (start s)) = firedThresholds (emitted s) @ []"
      using False by (auto simp add: start_def maybeStabilize_def)
    then show ?thesis using z m by (metis empty_iff list.set(1))
  next
    case True
    let ?s0 = "s\<lparr>isRunning := True\<rparr>"
    let ?s1 = "?s0\<lparr>site := (site ?s0)\<lparr>stabilizedVolatiles := True\<rparr>\<rparr>"
    let ?s2 = "emit (StabilizedVolatiles (timeSec ?s1)) ?s1"
    have st: "start s = stabilizeLoop (nat (stabilizeTicks (config ?s2))) ?s2"
      using True by (simp add: start_def maybeStabilize_def Let_def)
    have s2: "hazard (site ?s2) = hazard (site s)" "hazardInRange ?s2"
      "firedThresholds (emitted ?s2) = firedThresholds (emitted s)"
      "isFinite (tickLength (config ?s2))" "isNumber (hazard (site ?s2))"
      using assms by (simp_all add: hazardInRange_def emit_def firedThresholds_append)
    from stabilizeLoop_hazard [OF s2(2,4,5), of "nat (stabilizeTicks (config ?s2))"] s2(1,3) st z m
    show ?thesis by simp
  qed
qed

theorem start_leaves_hazard_unchanged_witness:
  "hazardInRange stabilizingEngine \<and> isFinite (tickLength (config stabilizingEngine)) \<and>
   isNumber (hazard (site stabilizingEngine)) \<and>
   hazard (site stabilizingEngine) = Num 45 \<and>
   hazard (site (start stabilizingEngine)) = Num 45 \<and>
   emitted (start stabilizingEngine) = [StabilizedVolatiles (Num 0), HazardThreshold (Num 0) 30]"
proof -
  have a: "hazardInRange stabilizingEngine" "isFinite (tickLength (config stabilizingEngine))"
    "isNumber (hazard (site stabilizingEngine))"
    "hazard (site stabilizingEngine) = Num 45"
    by (simp_all add: hazardInRange_def tickLength_def stabilizingEngine_def newEngine_def
        DEFAULT_SIM_CONFIG_def oneNodeSite_def isDouble_def number_eval)
  have b: "emitted (start stabilizingEngine) =
             [StabilizedVolatiles (Num 0), HazardThreshold (Num 0) 30]"
    by code_simp
  from start_leaves_hazard_unchanged [OF a(1,2,3)] a b show ?thesis by simp
qed

text \<open>
  Claim C9 as stated fails for a tick rate of zero: the one stabilization tick has the
  length \<open>Infinity\<close> and adds \<open>0 * Infinity\<close>, which is NaN, and the hazard 45 becomes
  NaN.
\<close>

theorem start_hazard_NaN_counterexample:
  "hazardInRange zeroRateStabilizingEngine \<and>
   hazard (site zeroRateStabilizingEngine) = Num 45 \<and>
   tickLength (config zeroRateStabilizingEngine) = PosInfinity \<and>
   hazard (site (start zeroRateStabilizingEngine)) = NaN \<and>
   hazard (site (start zeroRateStabilizingEngine)) \<noteq> hazard (site zeroRateStabilizingEngine) \<and>
   emitted (start zeroRateStabilizingEngine) = [StabilizedVolatiles (Num 0)]"
  by code_simp

text \<open>
  Claim C1 fails on the code: the \<open>onNodeDestroyed\<close> callback of \<open>tickHazard\<close> filters
  the node out of \<open>site.nodes\<close> and does not set \<open>exhausted\<close>, unlike
  \<open>removeNodeFromSite\<close>.  One volatile crate, the first tick brings the hazard to 30, the
  crate detonates: the site has no node and is not exhausted.
\<close>

theorem hazard_destruction_leaves_exhausted_unset:
  "(exhausted (site ammoEngine) \<longleftrightarrow> nodes (site ammoEngine) = []) \<and>
   emitted (applyOps [OpEnqueue [0], OpStart, OpRunStep] ammoEngine) =
     [ItemStarted (num_div (Num 1) (Num 10)) 0 0, HazardThreshold (num_div (Num 1) (Num 10)) 30,
      NodeDestroyed (num_div (Num 1) (Num 10)) 0 ''Ammo detonated due to rising hazard.'',
      ItemProgress (num_div (Num 1) (Num 10)) 0
        (num_div (num_div (Num 1) (Num 10)) (Num 10))] \<and>
   nodes (site (applyOps [OpEnqueue [0], OpStart, OpRunStep] ammoEngine)) = [] \<and>
   \<not> exhausted (site (applyOps [OpEnqueue [0], OpStart, OpRunStep] ammoEngine))"
  by code_simp

text \<open>
  Claim C3 fails on the code: the candidates of the explosion pass are listed once, before
  the pass.  The ammunition detonates, the blast brings the fuel drum to condition 0 and
  destroys it, and the drum, still in the list, then rolls its own explosion and is
  destroyed a second time.
\<close>

theorem destroyed_node_detonates_again:
  "nodes (site ammoFuelEngine) = [0, 1] \<and>
   emitted (rollThresholdEffects tickHazard_onNodeDamaged tickHazard_onNodeDestroyed
              ammoFuelEngine) =
     [NodeDestroyed (Num 0) 0 ''Ammo detonated due to rising hazard.'',
      NodeDamaged (Num 0) 1 ''Fuel damaged by blast.'',
      NodeDestroyed (Num 0) 1 ''Fuel destroyed by blast damage.'',
      NodeDestroyed (Num 0) 1 ''Fuel detonated due to rising hazard.''] \<and>
   emitted (applyOps [OpEnqueue [0], OpStart, OpRunStep] ammoFuelEngine) =
     [ItemStarted (num_div (Num 1) (Num 10)) 0 0, HazardThreshold (num_div (Num 1) (Num 10)) 30,
      NodeDestroyed (num_div (Num 1) (Num 10)) 0 ''Ammo detonated due to rising hazard.'',
      NodeDamaged (num_div (Num 1) (Num 10)) 1 ''Fuel damaged by blast.'',
      NodeDestroyed (num_div (Num 1) (Num 10)) 1 ''Fuel destroyed by blast damage.'',
      NodeDestroyed (num_div (Num 1) (Num 10)) 1 ''Fuel detonated due to rising hazard.'',
      ItemProgress (num_div (Num 1) (Num 10)) 0
        (num_div (num_div (Num 1) (Num 10)) (Num 10))]"
  by code_simp

lemma canExtract_waitForSpace:
  "waitForSpace (options s) \<Longrightarrow> reason (canExtract n s) \<noteq> Some ''Insufficient cargo space''"
  by (simp add: canExtract_def Let_def)

text \<open>
  Claim C8 fails on the code: \<open>canExtract\<close> answers \<open>ok\<close> whenever \<open>waitForSpace\<close> is
  set (lemma \<open>canExtract_waitForSpace\<close>), so the branch of \<open>startNextNode\<close> that holds is
  never taken.  With the cargo full and \<open>waitForSpace\<close> set, the first \<open>runStep\<close> starts
  the crate.
\<close>

theorem waitForSpace_starts_node_with_full_cargo:
  "waitForSpace (options waitingEngine) \<and>
   \<not> usedMassKg (cargo waitingEngine) + massKg (store waitingEngine 0)
       \<le> maxMassKg (cargo waitingEngine) \<and>
   isRunning (applyOps [OpEnqueue [0], OpStart] waitingEngine) \<and>
   currentNode (applyOps [OpEnqueue [0], OpStart] waitingEngine) = None \<and>
   queue (applyOps [OpEnqueue [0], OpStart] waitingEngine) = [0] \<and>
   cargo (applyOps [OpEnqueue [0], OpStart, OpRunStep] waitingEngine) = cargo waitingEngine \<and>
   emitted (applyOps [OpEnqueue [0], OpStart, OpRunStep] waitingEngine) =
     [ItemStarted (num_div (Num 1) (Num 10)) 0 0, ItemProgress (num_div (Num 1) (Num 10)) 0
        (num_div (num_div (Num 1) (Num 10)) (Num 10))] \<and>
   currentNode (applyOps [OpEnqueue [0], OpStart, OpRunStep] waitingEngine) = Some 0"
  by code_simp

subsection \<open>The one-crate scenario, step by step\<close>

lemma tickSum_numeral:
  "tickSum a (numeral v) = num_add (tickSum a (pred_numeral v)) (num_div (Num 1) (Num 10))"
  by (simp add: numeral_eq_Suc)

lemma progressBelowOne_numeral:
  "progressBelowOne a (numeral v) =
     (\<not> num_ge (progressOf (num_add a (num_div (Num 1) (Num 10)))) (Num 1) \<and>
      progressBelowOne (num_add a (num_div (Num 1) (Num 10))) (pred_numeral v))"
  by (simp add: numeral_eq_Suc)

lemma tick_value: "num_div (Num 1) (Num 10) = Num (3602879701896397 / 36028797018963968)"
  by (simp add: number_eval)

lemma crateClock_100: "crateClock 100 = Num (5629499534213109 / 562949953421312)"
  unfolding crateClock_def tick_value
  by (simp add: tickSum_numeral tick_value number_eval)

lemma crateClock_Suc: "crateClock (Suc j) = num_add (crateClock j) (num_div (Num 1) (Num 10))"
  by (simp add: crateClock_def del: num_div.simps)

lemma crateClock_101: "crateClock 101 = Num (710724316194405 / 70368744177664)"
proof -
  have "crateClock 101 = num_add (crateClock 100) (num_div (Num 1) (Num 10))"
    using crateClock_Suc [of 100] by simp
  then show ?thesis
    unfolding crateClock_100 tick_value by (simp add: number_eval)
qed

lemma crateProgress_100: "crateProgress 100 = Num (4503599627370487 / 4503599627370496)"
  unfolding crateProgress_def crateClock_100
  by (simp add: progressOf_def clampNumber_def number_eval)

lemma crateProgress_101: "crateProgress 101 = Num 1"
  unfolding crateProgress_def crateClock_101
  by (simp add: progressOf_def clampNumber_def number_eval)

lemma progressBelowOne_100: "progressBelowOne (Num 0) 100"
  unfolding tick_value
  by (simp add: progressBelowOne_numeral tick_value progressOf_def clampNumber_def number_eval)

lemma tickSum_shift: "tickSum (num_add a (num_div (Num 1) (Num 10))) j = tickSum a (Suc j)"
  by (induction j) (simp_all del: num_div.simps)

lemma progressBelowOne_sound:
  "progressBelowOne a k \<Longrightarrow> 1 \<le> i \<Longrightarrow> i \<le> k \<Longrightarrow> \<not> num_ge (progressOf (tickSum a i)) (Num 1)"
proof (induction k arbitrary: a i)
  case 0
  then show ?case by simp
next
  case (Suc k)
  let ?b = "num_add a (num_div (Num 1) (Num 10))"
  from Suc.prems(1) have b: "\<not> num_ge (progressOf ?b) (Num 1)" "progressBelowOne ?b k"
    by (simp_all del: num_div.simps)
  show ?case
  proof (cases "i = 1")
    case True
    with b(1) show ?thesis by (simp del: num_div.simps)
  next
    case False
    then obtain i' where i': "i = Suc i'" "1 \<le> i'" "i' \<le> k"
      using Suc.prems(2,3) by (cases i) auto
    from Suc.IH [OF b(2) i'(2,3)] show ?thesis
      unfolding i'(1) tickSum_shift .
  qed
qed

lemma crateProgress_below: "1 \<le> j \<Longrightarrow> j \<le> 100 \<Longrightarrow> \<not> num_ge (crateProgress j) (Num 1)"
  unfolding crateProgress_def crateClock_def
  by (rule progressBelowOne_sound [OF progressBelowOne_100])

lemma checkThresholdLoop_quiet:
  "\<forall>t \<in> set ts. \<not> num_ge (hazard (site s)) (Num t) \<Longrightarrow>
   checkThresholdLoop onD onX onT ts s = s"
  by (induction ts) auto

lemma tickHazard_quiet:
  assumes "stance (options s) = Normal"
    and "\<forall>t \<in> set (hazardThresholds (config s)).
           \<not> num_ge (clampNumber (num_add (hazard (site s)) (num_mul (Num h) dt))
                      (Num (hazardClampMin (config s))) (Num (hazardClampMax (config s)))) (Num t)"
  shows "tickHazard h dt s =
         s\<lparr>site := (site s)\<lparr>hazard :=
              clampNumber (num_add (hazard (site s)) (num_mul (Num h) dt))
                (Num (hazardClampMin (config s))) (Num (hazardClampMax (config s)))\<rparr>\<rparr>"
proof -
  let ?s1 = "addHazard (num_mul (Num h) dt) s"
  have a: "?s1 = s\<lparr>site := (site s)\<lparr>hazard :=
              clampNumber (num_add (hazard (site s)) (num_mul (Num h) dt))
                (Num (hazardClampMin (config s))) (Num (hazardClampMax (config s)))\<rparr>\<rparr>"
    by (simp add: addHazard_def)
  have "checkThresholdLoop tickHazard_onNodeDamaged tickHazard_onNodeDestroyed
          tickHazard_onThreshold (hazardThresholds (config ?s1)) ?s1 = ?s1"
    by (rule checkThresholdLoop_quiet) (use assms(2) a in simp)
  then show ?thesis
    using assms(1) a by (simp add: tickHazard_def checkThresholdEvents_def)
qed

lemma stabilizeLoop_quiet:
  assumes "stance (options s) = Normal" and "tickRateHz (config s) = 10"
    and "hazardInRange s" and "isNumber (hazard (site s))"
    and "\<forall>t \<in> set (hazardThresholds (config s)). \<not> num_ge (hazard (site s)) (Num t)"
  shows "stabilizeLoop k s = s"
proof (induction k)
  case 0
  show ?case by simp
next
  case (Suc k)
  obtain h where h: "hazard (site s) = Num h" "hazardClampMin (config s) \<le> h"
    "h \<le> hazardClampMax (config s)"
    using hazardInRange_Num [OF assms(3)] by blast
  have z: "num_mul (Num 0) (num_div (Num 1) (Num 10)) = Num 0"
    unfolding tick_value by (simp add: roundDouble_def)
  have r: "num_add (Num h) (Num 0) = Num h"
    using assms(4) by (simp add: h isDouble_def)
  have c: "clampNumber (num_add (hazard (site s)) (num_mul (Num 0) (num_div (Num 1) (Num 10))))
             (Num (hazardClampMin (config s))) (Num (hazardClampMax (config s))) =
           hazard (site s)"
    unfolding z h(1) r using h(2,3) by (rule clampNumber_id)
  have "tickHazard 0 (num_div (Num 1) (Num 10)) s = s"
    by (subst tickHazard_quiet) (use assms c in \<open>simp_all del: num_div.simps num_mul.simps
        num_add.simps\<close>)
  with Suc assms(2) show ?case by (simp del: num_div.simps)
qed

lemma progress_step:
  assumes "stance (options s) = Normal"
    and "\<forall>t \<in> set (hazardThresholds (config s)).
           \<not> num_ge (clampNumber (num_add (hazard (site s))
                        (num_mul (Num (baseHazardPerSec (store s n))) dt))
                      (Num (hazardClampMin (config s))) (Num (hazardClampMax (config s)))) (Num t)"
    and "currentNodeTotalSec s = 10"
    and "\<not> num_ge (progressOf (num_add (currentNodeProgressSec s) dt)) (Num 1)"
  shows "runStep_progress dt n s =
         s\<lparr>site := (site s)\<lparr>hazard :=
              clampNumber (num_add (hazard (site s))
                  (num_mul (Num (baseHazardPerSec (store s n))) dt))
                (Num (hazardClampMin (config s))) (Num (hazardClampMax (config s)))\<rparr>,
           currentNodeProgressSec := num_add (currentNodeProgressSec s) dt,
           emitted := emitted s @
             [ItemProgress (timeSec s) n (progressOf (num_add (currentNodeProgressSec s) dt))]\<rparr>"
  unfolding runStep_progress_def tickHazard_quiet [OF assms(1,2)]
  using assms(3,4) by (simp add: Let_def emit_def progressOf_def)

lemma finish_step:
  assumes "stance (options s) = Normal"
    and "\<forall>t \<in> set (hazardThresholds (config s)).
           \<not> num_ge (clampNumber (num_add (hazard (site s))
                        (num_mul (Num (baseHazardPerSec (store s n))) dt))
                      (Num (hazardClampMin (config s))) (Num (hazardClampMax (config s)))) (Num t)"
    and "currentNodeTotalSec s = 10"
    and "progressOf (num_add (currentNodeProgressSec s) dt) = Num 1"
  shows "runStep_progress dt n s =
         runStep_finish n
         (s\<lparr>site := (site s)\<lparr>hazard :=
              clampNumber (num_add (hazard (site s))
                  (num_mul (Num (baseHazardPerSec (store s n))) dt))
                (Num (hazardClampMin (config s))) (Num (hazardClampMax (config s)))\<rparr>,
           currentNodeProgressSec := num_add (currentNodeProgressSec s) dt,
           emitted := emitted s @ [ItemProgress (timeSec s) n (Num 1)]\<rparr>)"
  unfolding runStep_progress_def tickHazard_quiet [OF assms(1,2)]
  using assms(3,4) by (simp add: Let_def emit_def progressOf_def)

lemma crateProgressEvents_Suc:
  "crateProgressEvents n (Suc j) =
   crateProgressEvents n j @ [ItemProgress (crateClock (Suc j)) n (crateProgress (Suc j))]"
  by (simp add: crateProgressEvents_def)

lemma crateScenario_quiet:
  assumes "crateScenario objs n st ca opts cfg" and "j \<le> 101"
  shows "\<forall>t \<in> set (hazardThresholds cfg).
           \<not> num_ge (crateHazard (baseHazardPerSec (objs n)) cfg (hazard st) j) (Num t)"
  using assms by (simp add: crateScenario_def)

lemma crateRun_first:
  assumes "crateScenario objs n st ca opts cfg"
  shows "runStep (start (enqueue [n] (newEngine objs rnd st ca tls opts cfg))) =
         crateRun objs rnd n st ca tls opts cfg 1"
proof -
  let ?dt = "num_div (Num 1) (Num 10)"
  let ?E = "newEngine objs rnd st ca tls opts cfg"
  let ?st = "st\<lparr>stabilizedVolatiles := stabilizedVolatiles st \<or> autoStabilizeVolatiles opts\<rparr>"
  let ?pre = "stabilizationEvents st opts"
  let ?s0 = "?E\<lparr>site := ?st, queue := [n], isRunning := True, emitted := ?pre\<rparr>"
  note sc = assms [unfolded crateScenario_def]
  note q0 = crateScenario_quiet [OF assms, of 0, simplified]
  note q1 = crateScenario_quiet [OF assms, of 1]
  have q: "enqueue [n] ?E = ?E\<lparr>queue := [n]\<rparr>"
    using sc by (simp add: newEngine_def inSite_def)
  have e: "start (enqueue [n] ?E) = ?s0"
  proof (cases "\<not> stabilizedVolatiles st \<and> autoStabilizeVolatiles opts")
    case False
    then have "?st = st" "?pre = []"
      by (auto simp add: stabilizationEvents_def)
    with False show ?thesis
      unfolding q by (auto simp add: start_def maybeStabilize_def newEngine_def)
  next
    case True
    let ?s2 = "?E\<lparr>site := st\<lparr>stabilizedVolatiles := True\<rparr>, queue := [n], isRunning := True,
                    emitted := [StabilizedVolatiles (Num 0)]\<rparr>"
    have "stabilizeLoop k ?s2 = ?s2" for k
      using sc q0 by (intro stabilizeLoop_quiet) (auto simp add: newEngine_def hazardInRange_def)
    then have "start (?E\<lparr>queue := [n]\<rparr>) = ?s2"
      using True by (simp add: start_def maybeStabilize_def newEngine_def emit_def Let_def)
    with True show ?thesis
      unfolding q by (simp add: stabilizationEvents_def)
  qed
  let ?s1 = "?s0\<lparr>timeSec := crateClock 1\<rparr>"
  let ?s2 = "?s1\<lparr>currentNode := Some n, currentNodeTotalSec := 10,
                  currentNodeProgressSec := Num 0,
                  emitted := ?pre @ [ItemStarted (crateClock 1) n 0]\<rparr>"
  have c1: "crateClock 1 = num_add (Num 0) ?dt"
    by (simp add: crateClock_def del: num_div.simps num_add.simps)
  have n: "startNextNode ?s1 = ?s2"
    using sc
    by (simp add: startNextNode_def startNextNode_loop.simps newEngine_def inSite_def
        canExtract_def emit_def)
  have p1: "\<not> num_ge (progressOf (num_add (Num 0) ?dt)) (Num 1)"
    using crateProgress_below [of 1] unfolding crateProgress_def c1 by simp
  have h1: "clampNumber (num_add (hazard st) (num_mul (Num (baseHazardPerSec (objs n))) ?dt))
              (Num (hazardClampMin cfg)) (Num (hazardClampMax cfg)) =
            crateHazard (baseHazardPerSec (objs n)) cfg (hazard st) 1"
    by (simp del: num_div.simps num_add.simps num_mul.simps)
  have c: "stance (options ?s2) = Normal"
    "\<forall>t \<in> set (hazardThresholds (config ?s2)).
           \<not> num_ge (clampNumber (num_add (hazard (site ?s2))
                        (num_mul (Num (baseHazardPerSec (store ?s2 n))) ?dt))
                      (Num (hazardClampMin (config ?s2))) (Num (hazardClampMax (config ?s2)))) (Num t)"
    "currentNodeTotalSec ?s2 = 10"
    "\<not> num_ge (progressOf (num_add (currentNodeProgressSec ?s2) ?dt)) (Num 1)"
    using sc q1 p1 h1
    by (simp_all add: newEngine_def del: num_div.simps num_add.simps num_mul.simps
        crateHazard.simps)
  have "?s2\<lparr>site := (site ?s2)\<lparr>hazard :=
              clampNumber (num_add (hazard (site ?s2))
                  (num_mul (Num (baseHazardPerSec (store ?s2 n))) ?dt))
                (Num (hazardClampMin (config ?s2))) (Num (hazardClampMax (config ?s2)))\<rparr>,
           currentNodeProgressSec := num_add (currentNodeProgressSec ?s2) ?dt,
           emitted := emitted ?s2 @
             [ItemProgress (timeSec ?s2) n (progressOf (num_add (currentNodeProgressSec ?s2) ?dt))]\<rparr>
        = crateRun objs rnd n st ca tls opts cfg 1"
    using h1 c1
    by (simp add: newEngine_def crateRun_def crateProgressEvents_def crateProgress_def
        del: num_div.simps num_add.simps num_mul.simps crateHazard.simps)
  with progress_step [OF c]
  have pr: "runStep_progress ?dt n ?s2 = crateRun objs rnd n st ca tls opts cfg 1"
    by simp
  have "runStep ?s0 = runStep_progress ?dt n ?s2"
    using sc n c1
    by (simp add: runStep_def newEngine_def Let_def del: num_div.simps num_add.simps)
  with e pr show ?thesis by simp
qed

lemma crateRun_step:
  assumes "crateScenario objs n st ca opts cfg" and "j < 100"
  shows "runStep (crateRun objs rnd n st ca tls opts cfg j) =
         crateRun objs rnd n st ca tls opts cfg (Suc j)"
proof -
  let ?dt = "num_div (Num 1) (Num 10)"
  note sc = assms(1) [unfolded crateScenario_def]
  note q1 = crateScenario_quiet [OF assms(1), of "Suc j"]
  let ?s = "crateRun objs rnd n st ca tls opts cfg j"
  let ?s1 = "?s\<lparr>timeSec := crateClock (Suc j)\<rparr>"
  have run: "runStep ?s = runStep_progress ?dt n ?s1"
    using sc
    by (simp add: runStep_def crateRun_def newEngine_def Let_def crateClock_Suc
        del: num_div.simps num_add.simps)
  have p1: "\<not> num_ge (progressOf (num_add (crateClock j) ?dt)) (Num 1)"
    using crateProgress_below [of "Suc j"] assms(2)
    unfolding crateProgress_def crateClock_Suc by simp
  have c: "stance (options ?s1) = Normal"
    "\<forall>t \<in> set (hazardThresholds (config ?s1)).
           \<not> num_ge (clampNumber (num_add (hazard (site ?s1))
                        (num_mul (Num (baseHazardPerSec (store ?s1 n))) ?dt))
                      (Num (hazardClampMin (config ?s1))) (Num (hazardClampMax (config ?s1)))) (Num t)"
    "currentNodeTotalSec ?s1 = 10"
    "\<not> num_ge (progressOf (num_add (currentNodeProgressSec ?s1) ?dt)) (Num 1)"
    using sc q1 p1 assms(2)
    by (simp_all add: crateRun_def newEngine_def del: num_div.simps num_add.simps num_mul.simps)
  have "?s1\<lparr>site := (site ?s1)\<lparr>hazard :=
              clampNumber (num_add (hazard (site ?s1))
                  (num_mul (Num (baseHazardPerSec (store ?s1 n))) ?dt))
                (Num (hazardClampMin (config ?s1))) (Num (hazardClampMax (config ?s1)))\<rparr>,
           currentNodeProgressSec := num_add (currentNodeProgressSec ?s1) ?dt,
           emitted := emitted ?s1 @
             [ItemProgress (timeSec ?s1) n (progressOf (num_add (currentNodeProgressSec ?s1) ?dt))]\<rparr>
        = crateRun objs rnd n st ca tls opts cfg (Suc j)"
    by (simp add: crateRun_def newEngine_def crateProgressEvents_Suc crateProgress_def
        crateClock_Suc del: num_div.simps num_add.simps num_mul.simps)
  with run progress_step [OF c] show ?thesis by simp
qed

lemma applyOps_append: "applyOps (xs @ ys) s = applyOps ys (applyOps xs s)"
  by (induction xs arbitrary: s) simp_all

lemma applyOps_runSteps_Suc:
  "applyOps (replicate (Suc j) OpRunStep) s = runStep (applyOps (replicate j OpRunStep) s)"
proof -
  have r: "replicate (Suc j) OpRunStep = replicate j OpRunStep @ [OpRunStep]"
    by (simp add: replicate_append_same)
  show ?thesis
    unfolding r applyOps_append by simp
qed

lemma crateRun_steps:
  assumes "crateScenario objs n st ca opts cfg"
  shows "j \<le> 99 \<Longrightarrow>
         applyOps (replicate j OpRunStep) (crateRun objs rnd n st ca tls opts cfg 1) =
         crateRun objs rnd n st ca tls opts cfg (Suc j)"
proof (induction j)
  case 0
  then show ?case by simp
next
  case (Suc j)
  then have "applyOps (replicate j OpRunStep) (crateRun objs rnd n st ca tls opts cfg 1) =
             crateRun objs rnd n st ca tls opts cfg (Suc j)"
    by simp
  then show ?case
    unfolding applyOps_runSteps_Suc
    using crateRun_step [OF assms, of "Suc j"] Suc.prems by simp
qed

lemma crateRun_last:
  assumes "crateScenario objs n st ca opts cfg"
  shows "runStep (crateRun objs rnd n st ca tls opts cfg 100) =
         crateDone objs rnd n st ca tls opts cfg"
proof -
  let ?dt = "num_div (Num 1) (Num 10)"
  define k :: nat where "k = 100"
  have k: "(100::nat) = k" "(101::nat) = Suc k"
    by (simp_all add: k_def)
  note sc = assms(1) [unfolded crateScenario_def]
  have q1: "\<forall>t \<in> set (hazardThresholds cfg).
           \<not> num_ge (crateHazard (baseHazardPerSec (objs n)) cfg (hazard st) (Suc k)) (Num t)"
    using crateScenario_quiet [OF assms(1), of 101] unfolding k by simp
  let ?s = "crateRun objs rnd n st ca tls opts cfg k"
  let ?s1 = "?s\<lparr>timeSec := crateClock (Suc k)\<rparr>"
  have run: "runStep ?s = runStep_progress ?dt n ?s1"
    using sc
    by (simp add: runStep_def crateRun_def newEngine_def Let_def crateClock_Suc
        del: num_div.simps num_add.simps)
  have p0: "crateProgress (Suc k) = Num 1"
    using crateProgress_101 unfolding k .
  then have p1: "progressOf (num_add (crateClock k) ?dt) = Num 1"
    unfolding crateProgress_def crateClock_Suc .
  have c: "stance (options ?s1) = Normal"
    "\<forall>t \<in> set (hazardThresholds (config ?s1)).
           \<not> num_ge (clampNumber (num_add (hazard (site ?s1))
                        (num_mul (Num (baseHazardPerSec (store ?s1 n))) ?dt))
                      (Num (hazardClampMin (config ?s1))) (Num (hazardClampMax (config ?s1)))) (Num t)"
    "currentNodeTotalSec ?s1 = 10"
    "progressOf (num_add (currentNodeProgressSec ?s1) ?dt) = Num 1"
    using sc q1 p1
    by (simp_all add: crateRun_def newEngine_def del: num_div.simps num_add.simps num_mul.simps)
  let ?s5 = "?s1\<lparr>site := (site ?s1)\<lparr>hazard :=
              clampNumber (num_add (hazard (site ?s1))
                  (num_mul (Num (baseHazardPerSec (store ?s1 n))) ?dt))
                (Num (hazardClampMin (config ?s1))) (Num (hazardClampMax (config ?s1)))\<rparr>,
           currentNodeProgressSec := num_add (currentNodeProgressSec ?s1) ?dt,
           emitted := emitted ?s1 @ [ItemProgress (timeSec ?s1) n (Num 1)]\<rparr>"
  have "runStep_finish n ?s5 = crateDone objs rnd n st ca tls opts cfg"
    unfolding crateDone_def k
    using sc p0
    by (simp add: runStep_finish_def canExtract_def Let_def setCondition_def consumeCargo_def
        removeNodeFromSite_def emit_def crateRun_def newEngine_def crateClock_Suc
        crateProgressEvents_Suc
        del: num_div.simps num_add.simps num_mul.simps)
  with run finish_step [OF c] show ?thesis
    unfolding k by simp
qed

lemma crateDone_next:
  assumes "crateScenario objs n st ca opts cfg"
  shows "runStep (crateDone objs rnd n st ca tls opts cfg) =
         (crateDone objs rnd n st ca tls opts cfg)
           \<lparr>isRunning := False, timeSec := crateClock 102,
             currentNodeProgressSec := Num 0, currentNodeTotalSec := 0,
             emitted := emitted (crateDone objs rnd n st ca tls opts cfg) @
                        [Completed (crateClock 102)]\<rparr>"
proof -
  have k: "crateClock 102 = num_add (crateClock 101) (num_div (Num 1) (Num 10))"
    using crateClock_Suc [of 101] by simp
  show ?thesis
    unfolding k
    using assms
    by (simp add: crateScenario_def runStep_def crateDone_def newEngine_def Let_def
        startNextNode_def startNextNode_loop.simps emit_def
        del: num_div.simps num_add.simps)
qed

lemma crateScenario_run:
  assumes "crateScenario objs n st ca opts cfg"
  shows "applyOps (OpEnqueue [n] # OpStart # replicate 100 OpRunStep)
           (newEngine objs rnd st ca tls opts cfg) =
         crateRun objs rnd n st ca tls opts cfg 100"
proof -
  let ?E = "newEngine objs rnd st ca tls opts cfg"
  have r: "replicate 100 OpRunStep = OpRunStep # replicate 99 OpRunStep"
    by (simp add: numeral_eq_Suc)
  have "applyOps (OpEnqueue [n] # OpStart # replicate 100 OpRunStep) ?E =
        applyOps (replicate 99 OpRunStep) (runStep (start (enqueue [n] ?E)))"
    unfolding r by (simp del: replicate.simps enqueue.simps)
  also have "\<dots> = applyOps (replicate 99 OpRunStep) (crateRun objs rnd n st ca tls opts cfg 1)"
    unfolding crateRun_first [OF assms] ..
  also have "\<dots> = crateRun objs rnd n st ca tls opts cfg 100"
    using crateRun_steps [OF assms, of 99] by simp
  finally show ?thesis .
qed

lemma crateProgressEvents_filters:
  "filter isItemProgress (crateProgressEvents n j) = crateProgressEvents n j"
  "filter isItemStarted (crateProgressEvents n j) = []"
  "filter isItemTransferred (crateProgressEvents n j) = []"
  "filter isCompleted (crateProgressEvents n j) = []"
  "length (crateProgressEvents n j) = j"
  by (simp_all add: crateProgressEvents_def filter_map comp_def)

lemma crateProgressEvents_last:
  "last (crateProgressEvents n 100) =
     ItemProgress (crateClock 100) n (Num (4503599627370487 / 4503599627370496))"
  using crateProgressEvents_Suc [of n 99] crateProgress_100 by simp

lemma stabilizationEvents_filters:
  "filter isItemProgress (stabilizationEvents st opts) = []"
  "filter isItemStarted (stabilizationEvents st opts) = []"
  "filter isItemTransferred (stabilizationEvents st opts) = []"
  "filter isCompleted (stabilizationEvents st opts) = []"
  by (simp_all add: stabilizationEvents_def)

lemma crateRun_events:
  "filter isItemStarted (emitted (crateRun objs rnd n st ca tls opts cfg j)) =
     [ItemStarted (crateClock 1) n 0]"
  "filter isItemProgress (emitted (crateRun objs rnd n st ca tls opts cfg j)) =
     crateProgressEvents n j"
  "filter isItemTransferred (emitted (crateRun objs rnd n st ca tls opts cfg j)) = []"
  "filter isCompleted (emitted (crateRun objs rnd n st ca tls opts cfg j)) = []"
  by (simp_all add: crateRun_def crateProgressEvents_filters stabilizationEvents_filters)

lemma crateDone_emitted:
  "emitted (crateDone objs rnd n st ca tls opts cfg) =
   emitted (crateRun objs rnd n st ca tls opts cfg 100) @
     [ItemProgress (crateClock 101) n (Num 1), ItemTransferred (crateClock 101) n]"
  using crateProgressEvents_Suc [of n 100] crateProgress_101
  by (simp add: crateDone_def crateRun_def)

text \<open>
  Claim C2, amended.  In the one-crate scenario the hundred \<open>runStep\<close> calls after
  \<open>start\<close> emit one \<open>ItemStarted\<close> and one hundred \<open>ItemProgress\<close> events, one per step.
  The clock and the progress are sums of ticks of \<open>1 / 10\<close>, rounded at each addition:
  after a hundred ticks the progress is \<open>4503599627370487 / 4503599627370496\<close>, just
  below 1, the crate is still the current node, nothing is transferred and the cargo is
  as it was.  The 101st step emits the \<open>ItemProgress\<close> event with progress 1 and then the
  one \<open>ItemTransferred\<close>, and \<open>cargo.usedMassKg\<close> grows by 10; the engine is still
  running, the 102nd step emits \<open>Completed\<close> and stops it.
\<close>

theorem single_crate_scenario:
  assumes "crateScenario objs n st ca opts cfg"
  shows "(let s100 = applyOps (OpEnqueue [n] # OpStart # replicate 100 OpRunStep)
                       (newEngine objs rnd st ca tls opts cfg);
              s101 = runStep s100;
              s102 = runStep s101
          in emitted s100 =
               stabilizationEvents st opts @
               ItemStarted (crateClock 1) n 0 # crateProgressEvents n 100 \<and>
             filter isItemStarted (emitted s100) = [ItemStarted (crateClock 1) n 0] \<and>
             length (filter isItemProgress (emitted s100)) = 100 \<and>
             last (filter isItemProgress (emitted s100)) =
               ItemProgress (crateClock 100) n (Num (4503599627370487 / 4503599627370496)) \<and>
             filter isItemTransferred (emitted s100) = [] \<and>
             filter isCompleted (emitted s100) = [] \<and>
             currentNode s100 = Some n \<and> cargo s100 = ca \<and>
             emitted s101 =
               emitted s100 @
               [ItemProgress (crateClock 101) n (Num 1), ItemTransferred (crateClock 101) n] \<and>
             currentNode s101 = None \<and> isRunning s101 \<and>
             usedMassKg (cargo s101) = usedMassKg ca + 10 \<and>
             emitted s102 = emitted s101 @ [Completed (crateClock 102)] \<and>
             \<not> isRunning s102 \<and>
             usedMassKg (cargo s102) = usedMassKg ca + 10 \<and>
             length (filter isItemStarted (emitted s102)) = 1 \<and>
             length (filter isItemProgress (emitted s102)) = 101 \<and>
             length (filter isItemTransferred (emitted s102)) = 1 \<and>
             length (filter isCompleted (emitted s102)) = 1)"
  unfolding Let_def crateScenario_run [OF assms] crateRun_last [OF assms]
    crateDone_next [OF assms] crateDone_emitted crateRun_events crateProgressEvents_last
  by (simp add: crateDone_def crateRun_def newEngine_def crateProgressEvents_filters
      stabilizationEvents_filters)

lemma crateHazard_zero: "crateHazard 0 DEFAULT_SIM_CONFIG (Num 0) j = Num 0"
proof (induction j)
  case 0
  show ?case by simp
next
  case (Suc j)
  have z: "num_mul (Num 0) (num_div (Num 1) (Num 10)) = Num 0"
    unfolding tick_value by (simp add: roundDouble_def)
  show ?case
    unfolding crateHazard.simps Suc z
    by (simp add: roundDouble_def clampNumber_def DEFAULT_SIM_CONFIG_def)
qed

lemma crateEngine_scenario:
  "crateScenario (\<lambda>_. crate) 0 oneNodeSite demoCargo plainOptions DEFAULT_SIM_CONFIG"
proof -
  have "crateHazard (baseHazardPerSec crate) DEFAULT_SIM_CONFIG (hazard oneNodeSite) j = Num 0"
    for j
    using crateHazard_zero [of j] by (simp add: crate_def oneNodeSite_def)
  then show ?thesis
    unfolding crateScenario_def
    by (simp add: crate_def oneNodeSite_def demoCargo_def plainOptions_def
        DEFAULT_SIM_CONFIG_def isDouble_def roundDouble_def)
qed

theorem single_crate_scenario_witness:
  "crateScenario (\<lambda>_. crate) 0 oneNodeSite demoCargo plainOptions DEFAULT_SIM_CONFIG \<and>
   filter isItemStarted
     (emitted (applyOps (OpEnqueue [0] # OpStart # replicate 100 OpRunStep) crateEngine)) =
     [ItemStarted (crateClock 1) 0 0] \<and>
   length (filter isItemProgress
     (emitted (applyOps (OpEnqueue [0] # OpStart # replicate 100 OpRunStep) crateEngine))) = 100 \<and>
   last (filter isItemProgress
     (emitted (applyOps (OpEnqueue [0] # OpStart # replicate 100 OpRunStep) crateEngine))) =
     ItemProgress (Num (5629499534213109 / 562949953421312)) 0
       (Num (4503599627370487 / 4503599627370496)) \<and>
   filter isItemTransferred
     (emitted (applyOps (OpEnqueue [0] # OpStart # replicate 100 OpRunStep) crateEngine)) = [] \<and>
   filter isItemTransferred
     (emitted (applyOps (OpEnqueue [0] # OpStart # replicate 101 OpRunStep) crateEngine)) =
     [ItemTransferred (Num (710724316194405 / 70368744177664)) 0] \<and>
   usedMassKg (cargo (applyOps (OpEnqueue [0] # OpStart # replicate 101 OpRunStep) crateEngine))
     = 10 \<and>
   filter isCompleted
     (emitted (applyOps (OpEnqueue [0] # OpStart # replicate 101 OpRunStep) crateEngine)) = [] \<and>
   filter isCompleted
     (emitted (applyOps (OpEnqueue [0] # OpStart # replicate 102 OpRunStep) crateEngine)) =
     [Completed (crateClock 102)]"
proof -
  note t = single_crate_scenario [OF crateEngine_scenario, of "\<lambda>_. 0" allTools,
      folded crateEngine_def, unfolded Let_def]
  let ?e = "applyOps (OpEnqueue [0] # OpStart # replicate 100 OpRunStep) crateEngine"
  have r: "OpEnqueue [0] # OpStart # replicate 101 OpRunStep =
           (OpEnqueue [0] # OpStart # replicate 100 OpRunStep) @ [OpRunStep]"
    "OpEnqueue [0] # OpStart # replicate 102 OpRunStep =
           (OpEnqueue [0] # OpStart # replicate 100 OpRunStep) @ [OpRunStep, OpRunStep]"
    using replicate_append_same [of 100 OpRunStep] replicate_append_same [of 101 OpRunStep]
    by (simp_all add: numeral_eq_Suc)
  have s: "applyOps [OpRunStep] e = runStep e"
    "applyOps [OpRunStep, OpRunStep] e = runStep (runStep e)" for e
    by simp_all
  have e101: "applyOps (OpEnqueue [0] # OpStart # replicate 101 OpRunStep) crateEngine =
              runStep ?e"
    and e102: "applyOps (OpEnqueue [0] # OpStart # replicate 102 OpRunStep) crateEngine =
              runStep (runStep ?e)"
    unfolding r applyOps_append s by (rule refl)+
  have c: "usedMassKg demoCargo + 10 = 10"
    by (simp add: demoCargo_def)
  note t2 = t [THEN conjunct2]
  have i: "filter isItemTransferred (emitted (runStep ?e)) =
             [ItemTransferred (Num (710724316194405 / 70368744177664)) 0]"
    "filter isCompleted (emitted (runStep ?e)) = []"
    "filter isCompleted (emitted (runStep (runStep ?e))) = [Completed (crateClock 102)]"
    using t2 by (simp_all add: crateClock_101 del: applyOps.simps)
  show ?thesis
    unfolding e101 e102
    using t2 c i crateEngine_scenario
    by (simp add: crateClock_100 del: applyOps.simps)
qed

text \<open>
  Claim C2 as stated fails on the number of \<open>ItemProgress\<close> events: every step with a
  current node emits one, so the hundred steps emit one hundred, not ten.  It also fails
  on the transfer: the hundredth progress is below 1, and after the hundred steps no
  \<open>ItemTransferred\<close> has been emitted and \<open>cargo.usedMassKg\<close> is unchanged.
\<close>

theorem ten_progress_events_counterexample:
  "crateScenario (\<lambda>_. crate) 0 oneNodeSite demoCargo plainOptions DEFAULT_SIM_CONFIG \<and>
   length (filter isItemProgress
     (emitted (applyOps (OpEnqueue [0] # OpStart # replicate 100 OpRunStep) crateEngine))) \<noteq> 10 \<and>
   last (filter isItemProgress
     (emitted (applyOps (OpEnqueue [0] # OpStart # replicate 100 OpRunStep) crateEngine))) =
     ItemProgress (Num (5629499534213109 / 562949953421312)) 0
       (Num (4503599627370487 / 4503599627370496)) \<and>
   length (filter isItemTransferred
     (emitted (applyOps (OpEnqueue [0] # OpStart # replicate 100 OpRunStep) crateEngine))) \<noteq> 1 \<and>
   usedMassKg (cargo (applyOps (OpEnqueue [0] # OpStart # replicate 100 OpRunStep) crateEngine))
     \<noteq> usedMassKg (cargo crateEngine) + 10"
proof -
  have e: "applyOps (OpEnqueue [0] # OpStart # replicate 100 OpRunStep) crateEngine =
           crateRun (\<lambda>_. crate) (\<lambda>_. 0) 0 oneNodeSite demoCargo allTools plainOptions
             DEFAULT_SIM_CONFIG 100"
    unfolding crateEngine_def by (rule crateScenario_run [OF crateEngine_scenario])
  have c: "cargo (crateRun (\<lambda>_. crate) (\<lambda>_. 0) 0 oneNodeSite demoCargo allTools plainOptions
             DEFAULT_SIM_CONFIG 100) = demoCargo" "cargo crateEngine = demoCargo"
    by (simp_all add: crateRun_def crateEngine_def newEngine_def)
  show ?thesis
    unfolding e crateRun_events c crateProgressEvents_last crateClock_100
    by (simp add: crateProgressEvents_filters crateEngine_scenario)
qed

end
